theory Spec2Isabelle
  imports Complex_Main
begin

section \<open>Tabular Q-learning on FrozenLake: the notebook's functions\<close>

text \<open>
  The development embeds the three functions of
  \<^verbatim>\<open>week_1/understanding_frozenlake.ipynb\<close>: \<^verbatim>\<open>greedy_epsilon\<close>,
  \<^verbatim>\<open>run_env\<close> and \<^verbatim>\<open>evaluation\<close>.

  \<^item> The Q-table is a two-dimensional numpy array of doubles; it is a list of rows. Every
    finite double is a real number, so the entries are reals. An arithmetic operation of the
    source computes the exact result and rounds it to a double; the rounding is the
    parameter \<open>fl\<close> of the record \<open>numerics\<close>. With \<open>fl = (\<lambda>x. x)\<close> the arithmetic is exact.
    NaN and the infinities are outside the model.
  \<^item> The environment object \<^verbatim>\<open>env\<close> and Python's global random generator are
    collaborators whose code is not in the notebook: they are the operations of the record
    \<open>env\<close>, acting on a state \<open>'w\<close> of the outside world.
  \<^item> An exception is a value of \<open>py_error\<close>. A function that mutates the table or moves
    the world returns the exception (if any) together with the state at that moment.
  \<^item> The hyperparameters are module-level globals of the notebook; they are the record
    \<open>hyper\<close>.
\<close>

subsection \<open>Numbers, errors, hyperparameters\<close>

datatype py_error = IndexError | ValueError

record numerics =
  fl :: "real \<Rightarrow> real"
  np_mean :: "real list \<Rightarrow> real"

definition fadd :: "numerics \<Rightarrow> real \<Rightarrow> real \<Rightarrow> real" where
  "fadd p x y = fl p (x + y)"

definition fsub :: "numerics \<Rightarrow> real \<Rightarrow> real \<Rightarrow> real" where
  "fsub p x y = fl p (x - y)"

definition fmul :: "numerics \<Rightarrow> real \<Rightarrow> real \<Rightarrow> real" where
  "fmul p x y = fl p (x * y)"

definition fdiv :: "numerics \<Rightarrow> real \<Rightarrow> real \<Rightarrow> real" where
  "fdiv p x y = fl p (x / y)"

text \<open>Exact arithmetic, and the mean as sum over length.\<close>

definition exact :: numerics where
  "exact = \<lparr>fl = (\<lambda>x. x), np_mean = (\<lambda>xs. sum_list xs / real (length xs))\<rparr>"

text \<open>
  \<^verbatim>\<open>alpha = 0.1, gamma = 0.99, epsilon = 0.1, num_episodes = 10000\<close> in the notebook; the
  functions read them as globals.
\<close>

record hyper =
  alpha :: real
  gamma :: real
  epsilon :: real
  num_episodes :: nat

subsection \<open>The numpy operations the notebook calls\<close>

type_synonym qtable = "real list list"

text \<open>\<^verbatim>\<open>np.zeros((S, A))\<close>\<close>

definition np_zeros :: "nat \<Rightarrow> nat \<Rightarrow> qtable" where
  "np_zeros S A = replicate S (replicate A 0)"

text \<open>
  An integer index \<open>i\<close> into an axis of length \<open>n\<close>: numpy accepts \<open>-n \<le> i < n\<close>, a negative
  index counting from the end, and raises IndexError otherwise.
\<close>

definition np_index :: "nat \<Rightarrow> int \<Rightarrow> nat option" where
  "np_index n i =
     (if 0 \<le> i \<and> i < int n then Some (nat i)
      else if - int n \<le> i \<and> i < 0 then Some (nat (i + int n))
      else None)"

text \<open>\<^verbatim>\<open>qtable[state, :]\<close>\<close>

definition row_at :: "qtable \<Rightarrow> int \<Rightarrow> py_error + real list" where
  "row_at qt s = (case np_index (length qt) s of None \<Rightarrow> Inl IndexError | Some i \<Rightarrow> Inr (qt ! i))"

text \<open>\<^verbatim>\<open>qtable[state, action]\<close>, read\<close>

definition cell_at :: "qtable \<Rightarrow> int \<Rightarrow> int \<Rightarrow> py_error + real" where
  "cell_at qt s a =
     (case np_index (length qt) s of
        None \<Rightarrow> Inl IndexError
      | Some i \<Rightarrow>
          (case np_index (length (qt ! i)) a of
             None \<Rightarrow> Inl IndexError
           | Some j \<Rightarrow> Inr (qt ! i ! j)))"

text \<open>\<^verbatim>\<open>qtable[state, action] = v\<close>, write\<close>

definition cell_set :: "qtable \<Rightarrow> int \<Rightarrow> int \<Rightarrow> real \<Rightarrow> py_error + qtable" where
  "cell_set qt s a v =
     (case np_index (length qt) s of
        None \<Rightarrow> Inl IndexError
      | Some i \<Rightarrow>
          (case np_index (length (qt ! i)) a of
             None \<Rightarrow> Inl IndexError
           | Some j \<Rightarrow> Inr (qt[i := (qt ! i)[j := v]])))"

text \<open>
  \<^verbatim>\<open>np.argmax(row)\<close>: the index of the first occurrence of the maximum; ValueError on an
  empty row. The scan keeps the running maximum \<open>mp\<close> and its index \<open>mi\<close> and replaces them
  only on a strictly greater element.
\<close>

fun argmax_scan :: "real list \<Rightarrow> nat \<Rightarrow> real \<Rightarrow> nat \<Rightarrow> nat" where
  "argmax_scan [] i mp mi = mi"
| "argmax_scan (x # xs) i mp mi =
     (if mp < x then argmax_scan xs (Suc i) x i else argmax_scan xs (Suc i) mp mi)"

definition np_argmax :: "real list \<Rightarrow> py_error + int" where
  "np_argmax row =
     (case row of [] \<Rightarrow> Inl ValueError | x # xs \<Rightarrow> Inr (int (argmax_scan xs 1 x 0)))"

text \<open>\<^verbatim>\<open>np.all(row)\<close>: every entry is truthy, that is, non-zero.\<close>

definition np_all :: "real list \<Rightarrow> bool" where
  "np_all row = list_all (\<lambda>x. x \<noteq> 0) row"

text \<open>A numpy boolean compared with a float counts as 1.0 or 0.0.\<close>

definition bool_as_float :: "bool \<Rightarrow> real" where
  "bool_as_float b = (if b then 1 else 0)"

text \<open>\<^verbatim>\<open>np.max(steps)\<close> on a Python list of ints: ValueError on the empty list.\<close>

definition np_max :: "nat list \<Rightarrow> py_error + nat" where
  "np_max xs = (case xs of [] \<Rightarrow> Inl ValueError | y # ys \<Rightarrow> Inr (fold max ys y))"

subsection \<open>The collaborators\<close>

text \<open>
  \<^verbatim>\<open>env.reset()\<close>, \<^verbatim>\<open>env.step(action)\<close> (new state, reward, terminated, truncated),
  \<^verbatim>\<open>env.action_space.sample()\<close>, \<^verbatim>\<open>random.uniform(0, 1)\<close>,
  \<^verbatim>\<open>env.observation_space.n\<close> and \<^verbatim>\<open>env.action_space.n\<close>. The \<^verbatim>\<open>info\<close> values
  are never read by the notebook and are left out.
\<close>

record 'w env =
  env_reset :: "'w \<Rightarrow> int \<times> 'w"
  env_step :: "int \<Rightarrow> 'w \<Rightarrow> (int \<times> real \<times> bool \<times> bool) \<times> 'w"
  env_sample :: "'w \<Rightarrow> int \<times> 'w"
  rand_uniform :: "'w \<Rightarrow> real \<times> 'w"
  n_states :: nat
  n_actions :: nat

subsection \<open>\<^verbatim>\<open>greedy_epsilon\<close>\<close>

text \<open>
  \<^verbatim>\<open>
  def greedy_epsilon(qtable, state):
    if random.uniform(0, 1) < epsilon:
      action = env.action_space.sample()
    else:
      if np.all(qtable[state, :]) == qtable[state, 0]:
        action = env.action_space.sample()
      else:
        action = np.argmax(qtable[state, :])
    return action
  \<close>
  The test of the inner \<^verbatim>\<open>if\<close> compares the boolean \<^verbatim>\<open>np.all(row)\<close> with the float
  \<^verbatim>\<open>qtable[state, 0]\<close>.
\<close>

definition greedy_epsilon ::
  "'w env \<Rightarrow> hyper \<Rightarrow> qtable \<Rightarrow> int \<Rightarrow> 'w \<Rightarrow> (py_error + int) \<times> 'w" where
  "greedy_epsilon env h qt s w =
     (case rand_uniform env w of (u, w1) \<Rightarrow>
        if u < epsilon h then (case env_sample env w1 of (a, w2) \<Rightarrow> (Inr a, w2))
        else
          (case row_at qt s of
             Inl e \<Rightarrow> (Inl e, w1)
           | Inr row \<Rightarrow>
               (case cell_at qt s 0 of
                  Inl e \<Rightarrow> (Inl e, w1)
                | Inr q0 \<Rightarrow>
                    if bool_as_float (np_all row) = q0
                    then (case env_sample env w1 of (a, w2) \<Rightarrow> (Inr a, w2))
                    else
                      (case np_argmax row of
                         Inl e \<Rightarrow> (Inl e, w1)
                       | Inr a \<Rightarrow> (Inr a, w1)))))"

subsection \<open>The update rule (lines 185 to 188 of \<^verbatim>\<open>run_env\<close>)\<close>

text \<open>
  \<^verbatim>\<open>
  next_best_action = np.argmax(qtable[new_state, :])
  td_target = reward + gamma * qtable[new_state, next_best_action]
  td_error = td_target - qtable[state, action]
  qtable[state, action] += alpha * td_error
  \<close>
  Every read that can raise comes before the write, so an error leaves the table as it was.
\<close>

definition q_update ::
  "numerics \<Rightarrow> hyper \<Rightarrow> qtable \<Rightarrow> int \<Rightarrow> int \<Rightarrow> real \<Rightarrow> int \<Rightarrow> py_error + qtable" where
  "q_update p h qt s a r s' =
     (case row_at qt s' of
        Inl e \<Rightarrow> Inl e
      | Inr row \<Rightarrow>
          (case np_argmax row of
             Inl e \<Rightarrow> Inl e
           | Inr next_best_action \<Rightarrow>
               (case cell_at qt s' next_best_action of
                  Inl e \<Rightarrow> Inl e
                | Inr qn \<Rightarrow>
                    (let td_target = fadd p r (fmul p (gamma h) qn) in
                     case cell_at qt s a of
                       Inl e \<Rightarrow> Inl e
                     | Inr q \<Rightarrow>
                         (let td_error = fsub p td_target q in
                          cell_set qt s a (fadd p q (fmul p (alpha h) td_error)))))))"

text \<open>The value the update writes, from the old entry \<open>q\<close>, the reward and the next state's best entry \<open>m\<close>.\<close>

definition td_value :: "numerics \<Rightarrow> hyper \<Rightarrow> real \<Rightarrow> real \<Rightarrow> real \<Rightarrow> real" where
  "td_value p h q r m =
     fadd p q (fmul p (alpha h) (fsub p (fadd p r (fmul p (gamma h) m)) q))"

subsection \<open>\<^verbatim>\<open>run_env\<close>: the training loop\<close>

text \<open>
  The variables of one episode: the table, \<^verbatim>\<open>state\<close>, \<^verbatim>\<open>done\<close>, the episode's reward
  and step accumulators, and the outside world. \<^verbatim>\<open>run_env\<close> calls the accumulators
  \<^verbatim>\<open>episode_rewards\<close> and \<^verbatim>\<open>episode_steps\<close>, \<^verbatim>\<open>evaluation\<close> calls them
  \<^verbatim>\<open>episode_reward\<close> and \<^verbatim>\<open>episode_steps\<close>; one record serves both.
\<close>

record 'w episode =
  l_qtable :: qtable
  l_state :: int
  l_done :: bool
  l_reward :: real
  l_steps :: nat
  l_world :: 'w

text \<open>
  The body of \<^verbatim>\<open>while not done\<close> in \<^verbatim>\<open>run_env\<close>:
  \<^verbatim>\<open>
  action = greedy_epsilon(qtable, state)
  new_state, reward, terminated, truncated, info = env.step(action)
  (the update rule)
  state = new_state
  episode_rewards += reward
  episode_steps += 1
  done = terminated or truncated
  \<close>
  An exception leaves the variables as they were when it was raised: the world has moved,
  the table has not.
\<close>

definition train_iter ::
  "'w env \<Rightarrow> numerics \<Rightarrow> hyper \<Rightarrow> 'w episode \<Rightarrow> py_error option \<times> 'w episode" where
  "train_iter env p h st =
     (case greedy_epsilon env h (l_qtable st) (l_state st) (l_world st) of
        (Inl e, w1) \<Rightarrow> (Some e, st\<lparr>l_world := w1\<rparr>)
      | (Inr action, w1) \<Rightarrow>
          (case env_step env action w1 of
             ((new_state, reward, terminated, truncated), w2) \<Rightarrow>
               (case q_update p h (l_qtable st) (l_state st) action reward new_state of
                  Inl e \<Rightarrow> (Some e, st\<lparr>l_world := w2\<rparr>)
                | Inr qt' \<Rightarrow>
                    (None,
                     \<lparr>l_qtable = qt', l_state = new_state,
                      l_done = (terminated \<or> truncated),
                      l_reward = fadd p (l_reward st) reward,
                      l_steps = l_steps st + 1,
                      l_world = w2\<rparr>))))"

text \<open>
  \<^verbatim>\<open>while not done: ...\<close>. The loop need not end (an environment may never terminate or
  truncate): the result is \<open>None\<close> when it does not.
\<close>

partial_function (option) train_loop ::
  "'w env \<Rightarrow> numerics \<Rightarrow> hyper \<Rightarrow> 'w episode \<Rightarrow> (py_error option \<times> 'w episode) option" where
  "train_loop env p h st =
     (if l_done st then Some (None, st)
      else
        (case train_iter env p h st of
           (Some e, st') \<Rightarrow> Some (Some e, st')
         | (None, st') \<Rightarrow> train_loop env p h st'))"

text \<open>
  The variables of \<^verbatim>\<open>run_env\<close> across episodes: the table, the lists \<^verbatim>\<open>rewards\<close> and
  \<^verbatim>\<open>steps\<close>, and the world.
\<close>

record 'w run =
  r_qtable :: qtable
  r_rewards :: "real list"
  r_steps :: "nat list"
  r_world :: 'w

text \<open>
  \<^verbatim>\<open>for _ in range(num_episodes)\<close>: reset, run the episode, append its reward and steps.
\<close>

fun train_episodes ::
  "'w env \<Rightarrow> numerics \<Rightarrow> hyper \<Rightarrow> nat \<Rightarrow> 'w run \<Rightarrow> (py_error option \<times> 'w run) option" where
  "train_episodes env p h 0 acc = Some (None, acc)"
| "train_episodes env p h (Suc n) acc =
     (case env_reset env (r_world acc) of
        (s0, w0) \<Rightarrow>
          (case train_loop env p h
                  \<lparr>l_qtable = r_qtable acc, l_state = s0, l_done = False,
                   l_reward = 0, l_steps = 0, l_world = w0\<rparr> of
             None \<Rightarrow> None
           | Some (Some e, st) \<Rightarrow>
               Some (Some e, acc\<lparr>r_qtable := l_qtable st, r_world := l_world st\<rparr>)
           | Some (None, st) \<Rightarrow>
               train_episodes env p h n
                 \<lparr>r_qtable = l_qtable st,
                  r_rewards = r_rewards acc @ [l_reward st],
                  r_steps = r_steps acc @ [l_steps st],
                  r_world = l_world st\<rparr>))"

text \<open>
  What \<^verbatim>\<open>run_env\<close> hands to its caller: the returned table, and the two numbers it
  prints (\<^verbatim>\<open>np.mean(rewards)\<close>, \<^verbatim>\<open>np.max(steps)\<close>). With no episode,
  \<^verbatim>\<open>np.max([])\<close> raises ValueError before the return.
\<close>

record train_result =
  returned_qtable :: qtable
  printed_mean_reward :: real
  printed_max_steps :: nat

text \<open>The first three lines of \<^verbatim>\<open>run_env\<close>: a table of zeros and two empty lists.\<close>

definition run_start :: "'w env \<Rightarrow> 'w \<Rightarrow> 'w run" where
  "run_start env w =
     \<lparr>r_qtable = np_zeros (n_states env) (n_actions env), r_rewards = [], r_steps = [], r_world = w\<rparr>"

definition run_env ::
  "'w env \<Rightarrow> numerics \<Rightarrow> hyper \<Rightarrow> 'w \<Rightarrow> ((py_error + train_result) \<times> 'w) option" where
  "run_env env p h w =
     (case train_episodes env p h (num_episodes h) (run_start env w) of
        None \<Rightarrow> None
      | Some (Some e, acc) \<Rightarrow> Some (Inl e, r_world acc)
      | Some (None, acc) \<Rightarrow>
          (case np_max (r_steps acc) of
             Inl e \<Rightarrow> Some (Inl e, r_world acc)
           | Inr mx \<Rightarrow>
               Some (Inr \<lparr>returned_qtable = r_qtable acc,
                          printed_mean_reward = np_mean p (r_rewards acc),
                          printed_max_steps = mx\<rparr>,
                     r_world acc)))"

subsection \<open>\<^verbatim>\<open>evaluation\<close>\<close>

text \<open>
  The body of \<^verbatim>\<open>while not done\<close> in \<^verbatim>\<open>evaluation\<close>:
  \<^verbatim>\<open>
  action = np.argmax(qtable[state, :])
  new_state, reward, terminated, truncated, info = env.step(action)
  state = new_state
  episode_reward += reward
  episode_steps += 1
  done = terminated or truncated
  \<close>
  The table is the caller's array, passed by reference; it is carried along so that its
  content after the call can be stated.
\<close>

definition eval_iter ::
  "'w env \<Rightarrow> numerics \<Rightarrow> 'w episode \<Rightarrow> py_error option \<times> 'w episode" where
  "eval_iter env p st =
     (case row_at (l_qtable st) (l_state st) of
        Inl e \<Rightarrow> (Some e, st)
      | Inr row \<Rightarrow>
          (case np_argmax row of
             Inl e \<Rightarrow> (Some e, st)
           | Inr action \<Rightarrow>
               (case env_step env action (l_world st) of
                  ((new_state, reward, terminated, truncated), w') \<Rightarrow>
                    (None,
                     st\<lparr>l_state := new_state,
                        l_reward := fadd p (l_reward st) reward,
                        l_steps := l_steps st + 1,
                        l_done := (terminated \<or> truncated),
                        l_world := w'\<rparr>))))"

partial_function (option) eval_loop ::
  "'w env \<Rightarrow> numerics \<Rightarrow> 'w episode \<Rightarrow> (py_error option \<times> 'w episode) option" where
  "eval_loop env p st =
     (if l_done st then Some (None, st)
      else
        (case eval_iter env p st of
           (Some e, st') \<Rightarrow> Some (Some e, st')
         | (None, st') \<Rightarrow> eval_loop env p st'))"

text \<open>
  The variables of \<^verbatim>\<open>evaluation\<close> across trials: the table, \<^verbatim>\<open>num_successes\<close>,
  \<^verbatim>\<open>rewards\<close>, \<^verbatim>\<open>steps\<close> and the world.
\<close>

record 'w trials =
  t_qtable :: qtable
  t_successes :: nat
  t_rewards :: "real list"
  t_steps :: "nat list"
  t_world :: 'w

fun eval_episodes ::
  "'w env \<Rightarrow> numerics \<Rightarrow> nat \<Rightarrow> 'w trials \<Rightarrow> (py_error option \<times> 'w trials) option" where
  "eval_episodes env p 0 acc = Some (None, acc)"
| "eval_episodes env p (Suc n) acc =
     (case env_reset env (t_world acc) of
        (s0, w0) \<Rightarrow>
          (case eval_loop env p
                  \<lparr>l_qtable = t_qtable acc, l_state = s0, l_done = False,
                   l_reward = 0, l_steps = 0, l_world = w0\<rparr> of
             None \<Rightarrow> None
           | Some (Some e, st) \<Rightarrow>
               Some (Some e, acc\<lparr>t_qtable := l_qtable st, t_world := l_world st\<rparr>)
           | Some (None, st) \<Rightarrow>
               eval_episodes env p n
                 \<lparr>t_qtable = l_qtable st,
                  t_successes = (if l_reward st = 1 then t_successes acc + 1 else t_successes acc),
                  t_rewards = t_rewards acc @ [l_reward st],
                  t_steps = t_steps acc @ [l_steps st],
                  t_world = l_world st\<rparr>))"

text \<open>
  \<^verbatim>\<open>evaluation\<close> returns nothing; it prints the mean reward, the maximal step count and
  \<^verbatim>\<open>num_successes / num_trials\<close>. With no trial, \<^verbatim>\<open>np.max([])\<close> raises ValueError
  before the division. The result also holds the table and the world after the call.
\<close>

record eval_report =
  mean_reward :: real
  max_steps :: nat
  success_rate :: real

text \<open>The first three lines of \<^verbatim>\<open>evaluation\<close>: no success yet and two empty lists.\<close>

definition trials_start :: "qtable \<Rightarrow> 'w \<Rightarrow> 'w trials" where
  "trials_start qt w = \<lparr>t_qtable = qt, t_successes = 0, t_rewards = [], t_steps = [], t_world = w\<rparr>"

definition evaluation ::
  "'w env \<Rightarrow> numerics \<Rightarrow> qtable \<Rightarrow> nat \<Rightarrow> 'w \<Rightarrow> ((py_error + eval_report) \<times> qtable \<times> 'w) option" where
  "evaluation env p qt num_trials w =
     (case eval_episodes env p num_trials (trials_start qt w) of
        None \<Rightarrow> None
      | Some (Some e, acc) \<Rightarrow> Some (Inl e, t_qtable acc, t_world acc)
      | Some (None, acc) \<Rightarrow>
          (case np_max (t_steps acc) of
             Inl e \<Rightarrow> Some (Inl e, t_qtable acc, t_world acc)
           | Inr mx \<Rightarrow>
               Some (Inr \<lparr>mean_reward = np_mean p (t_rewards acc),
                          max_steps = mx,
                          success_rate = fdiv p (real (t_successes acc)) (real num_trials)\<rparr>,
                     t_qtable acc, t_world acc)))"

subsection \<open>Episodes as the environment plays them\<close>

text \<open>
  The rewards of one episode, read off the collaborators and the table alone. From state \<open>s\<close>
  and world \<open>w\<close> the policy's action goes to \<^verbatim>\<open>env.step\<close>; the episode ends with the first
  step that reports \<^verbatim>\<open>terminated\<close> or \<^verbatim>\<open>truncated\<close>, so it has at least one step.
  \<open>eval_trace env qt s w rs\<close> is the state and world at that end when the rewards of the steps
  are exactly \<open>rs\<close>, and \<open>None\<close> otherwise (an exception, another reward, an earlier or a
  later end). \<open>train_trace\<close> does the same for the epsilon-greedy policy with the update rule
  applied after every step, and also gives the table at the end. \<open>eval_trials\<close> and
  \<open>train_trials\<close> play one such episode after each reset. These functions keep no
  \<^verbatim>\<open>done\<close> flag and no accumulators: they are what the loops above are compared with.
\<close>

fun eval_trace :: "'w env \<Rightarrow> qtable \<Rightarrow> int \<Rightarrow> 'w \<Rightarrow> real list \<Rightarrow> (int \<times> 'w) option" where
  "eval_trace env qt s w [] = None"
| "eval_trace env qt s w (r # rs) =
     (case row_at qt s of
        Inl e \<Rightarrow> None
      | Inr row \<Rightarrow>
          (case np_argmax row of
             Inl e \<Rightarrow> None
           | Inr a \<Rightarrow>
               (case env_step env a w of
                  ((ns, r', te, tr), w1) \<Rightarrow>
                    if r' \<noteq> r then None
                    else if te \<or> tr then (if rs = [] then Some (ns, w1) else None)
                    else eval_trace env qt ns w1 rs)))"

fun train_trace ::
  "'w env \<Rightarrow> numerics \<Rightarrow> hyper \<Rightarrow> qtable \<Rightarrow> int \<Rightarrow> 'w \<Rightarrow> real list \<Rightarrow> (qtable \<times> int \<times> 'w) option" where
  "train_trace env p h qt s w [] = None"
| "train_trace env p h qt s w (r # rs) =
     (case greedy_epsilon env h qt s w of
        (Inl e, w1) \<Rightarrow> None
      | (Inr a, w1) \<Rightarrow>
          (case env_step env a w1 of
             ((ns, r', te, tr), w2) \<Rightarrow>
               (case q_update p h qt s a r' ns of
                  Inl e \<Rightarrow> None
                | Inr qt' \<Rightarrow>
                    if r' \<noteq> r then None
                    else if te \<or> tr then (if rs = [] then Some (qt', ns, w2) else None)
                    else train_trace env p h qt' ns w2 rs)))"

fun eval_trials :: "'w env \<Rightarrow> qtable \<Rightarrow> 'w \<Rightarrow> real list list \<Rightarrow> 'w option" where
  "eval_trials env qt w [] = Some w"
| "eval_trials env qt w (rs # rss) =
     (case env_reset env w of
        (s0, w0) \<Rightarrow>
          (case eval_trace env qt s0 w0 rs of
             None \<Rightarrow> None
           | Some (s1, w1) \<Rightarrow> eval_trials env qt w1 rss))"

fun train_trials ::
  "'w env \<Rightarrow> numerics \<Rightarrow> hyper \<Rightarrow> qtable \<Rightarrow> 'w \<Rightarrow> real list list \<Rightarrow> (qtable \<times> 'w) option" where
  "train_trials env p h qt w [] = Some (qt, w)"
| "train_trials env p h qt w (rs # rss) =
     (case env_reset env w of
        (s0, w0) \<Rightarrow>
          (case train_trace env p h qt s0 w0 rs of
             None \<Rightarrow> None
           | Some (qt1, s1, w1) \<Rightarrow> train_trials env p h qt1 w1 rss))"

subsection \<open>Replaying one transition\<close>

text \<open>
  The update rule applied \<open>n\<close> times to the same \<open>(s, a, r, s')\<close>, stopping at the first
  exception: the harness of the convergence test, not a function of the notebook.
\<close>

fun replay ::
  "numerics \<Rightarrow> hyper \<Rightarrow> nat \<Rightarrow> qtable \<Rightarrow> int \<Rightarrow> int \<Rightarrow> real \<Rightarrow> int \<Rightarrow> py_error + qtable" where
  "replay p h 0 qt s a r s' = Inr qt"
| "replay p h (Suc n) qt s a r s' =
     (case q_update p h qt s a r s' of
        Inl e \<Rightarrow> Inl e
      | Inr qt' \<Rightarrow> replay p h n qt' s a r s')"

subsection \<open>A scripted environment\<close>

text \<open>
  A stub collaborator for concrete runs: the world is the list of step results still to be
  played, the random draws still to be made and the actions the sampler will return. An
  exhausted script ends the episode; exhausted draws and samples give 0.
\<close>

record script =
  s_steps :: "(int \<times> real \<times> bool \<times> bool) list"
  s_draws :: "real list"
  s_samples :: "int list"

definition scripted :: "nat \<Rightarrow> nat \<Rightarrow> script env" where
  "scripted S A =
     \<lparr>env_reset = (\<lambda>w. (0, w)),
      env_step = (\<lambda>a w. case s_steps w of
                          [] \<Rightarrow> ((0, 0, True, False), w)
                        | x # xs \<Rightarrow> (x, w\<lparr>s_steps := xs\<rparr>)),
      env_sample = (\<lambda>w. case s_samples w of
                          [] \<Rightarrow> (0, w)
                        | a # as \<Rightarrow> (a, w\<lparr>s_samples := as\<rparr>)),
      rand_uniform = (\<lambda>w. case s_draws w of
                            [] \<Rightarrow> (0, w)
                          | u # us \<Rightarrow> (u, w\<lparr>s_draws := us\<rparr>)),
      n_states = S,
      n_actions = A\<rparr>"

subsection \<open>Concrete inputs\<close>

text \<open>
  Hyperparameters, scripted worlds and the states of the runs that the closed theorems below
  evaluate. Except in \<open>h_tenth\<close>, all numbers are integers or halves, on which double
  arithmetic is exact.
\<close>

definition h_half :: hyper where
  "h_half = \<lparr>alpha = 1/2, gamma = 0, epsilon = 0, num_episodes = 1\<rparr>"

definition w_pick :: "real \<Rightarrow> int \<Rightarrow> script" where
  "w_pick u a = \<lparr>s_steps = [], s_draws = [u], s_samples = [a]\<rparr>"

definition ep_start :: "qtable \<Rightarrow> (int \<times> real \<times> bool \<times> bool) list \<Rightarrow> script episode" where
  "ep_start qt steps =
     \<lparr>l_qtable = qt, l_state = 0, l_done = False, l_reward = 0, l_steps = 0,
      l_world = \<lparr>s_steps = steps, s_draws = [], s_samples = []\<rparr>\<rparr>"

definition ep_one :: "script episode" where
  "ep_one = ep_start [[0, 0], [0, 0]] [(1, 1, True, False)]"

definition ep_one_trained :: "script episode" where
  "ep_one_trained =
     \<lparr>l_qtable = [[1/2, 0], [0, 0]], l_state = 1, l_done = True, l_reward = 1, l_steps = 1,
      l_world = \<lparr>s_steps = [], s_draws = [], s_samples = []\<rparr>\<rparr>"

definition ep_one_evaluated :: "script episode" where
  "ep_one_evaluated =
     \<lparr>l_qtable = [[0, 0], [0, 0]], l_state = 1, l_done = True, l_reward = 1, l_steps = 1,
      l_world = \<lparr>s_steps = [], s_draws = [], s_samples = []\<rparr>\<rparr>"

definition ep_bad :: "script episode" where
  "ep_bad = (ep_start [[0, 0], [0, 0]] [])\<lparr>l_state := 5\<rparr>"

definition ep_neg :: "script episode" where
  "ep_neg = ep_start [[0, 0], [0, 0]] [(- 1, 1, False, False), (0, 1, True, False)]"

definition ep_neg1 :: "script episode" where
  "ep_neg1 =
     \<lparr>l_qtable = [[1/2, 0], [0, 0]], l_state = - 1, l_done = False, l_reward = 1, l_steps = 1,
      l_world = \<lparr>s_steps = [(0, 1, True, False)], s_draws = [], s_samples = []\<rparr>\<rparr>"

definition ep_neg2 :: "script episode" where
  "ep_neg2 =
     \<lparr>l_qtable = [[1/2, 0], [1/2, 0]], l_state = 0, l_done = True, l_reward = 2, l_steps = 2,
      l_world = \<lparr>s_steps = [], s_draws = [], s_samples = []\<rparr>\<rparr>"

definition ep_big :: "script episode" where
  "ep_big = ep_start [[0, 0], [0, 0]] [(2, 1, False, False)]"

definition w_empty :: script where
  "w_empty = \<lparr>s_steps = [], s_draws = [], s_samples = []\<rparr>"

definition w_eval :: script where
  "w_eval = \<lparr>s_steps = [(1, 1, True, False), (1, 0, True, False)], s_draws = [], s_samples = []\<rparr>"

definition w_one :: script where
  "w_one = \<lparr>s_steps = [(1, 1, True, False)], s_draws = [], s_samples = []\<rparr>"

definition trials_one :: "script trials" where
  "trials_one = \<lparr>t_qtable = [[0, 1/2], [0, 0]], t_successes = 1, t_rewards = [1], t_steps = [1],
                 t_world = w_empty\<rparr>"

definition report_half :: eval_report where
  "report_half = \<lparr>mean_reward = 1/2, max_steps = 1, success_rate = 1/2\<rparr>"

definition report_one :: eval_report where
  "report_one = \<lparr>mean_reward = 1, max_steps = 1, success_rate = 1\<rparr>"

definition h_two :: hyper where
  "h_two = \<lparr>alpha = 1, gamma = 0, epsilon = 0, num_episodes = 2\<rparr>"

definition w_a :: script where
  "w_a = \<lparr>s_steps = [(0, 1, False, False), (0, 0, True, False), (0, 0, True, False)],
          s_draws = [], s_samples = []\<rparr>"

definition w_b :: script where
  "w_b = \<lparr>s_steps = [(0, 0, True, False), (0, 1, False, False), (0, 0, True, False)],
          s_draws = [], s_samples = []\<rparr>"

definition run_a :: "script run" where
  "run_a = \<lparr>r_qtable = [[0, 0], [0, 0]], r_rewards = [1, 0], r_steps = [2, 1], r_world = w_empty\<rparr>"

definition run_b :: "script run" where
  "run_b = \<lparr>r_qtable = [[0, 0], [0, 0]], r_rewards = [0, 1], r_steps = [1, 2], r_world = w_empty\<rparr>"

definition result_ab :: train_result where
  "result_ab = \<lparr>returned_qtable = [[0, 0], [0, 0]], printed_mean_reward = 1/2, printed_max_steps = 2\<rparr>"

definition w_two :: script where
  "w_two = \<lparr>s_steps = [(1, 0, False, False), (0, 1, True, False)], s_draws = [], s_samples = []\<rparr>"

definition ep_two :: "script episode" where
  "ep_two =
     \<lparr>l_qtable = [[0, 0], [0, 0]], l_state = 0, l_done = False, l_reward = 0, l_steps = 0,
      l_world = w_two\<rparr>"

definition ep_two_trained :: "script episode" where
  "ep_two_trained =
     \<lparr>l_qtable = [[0, 0], [1/2, 0]], l_state = 0, l_done = True, l_reward = 1, l_steps = 2,
      l_world = w_empty\<rparr>"

definition ep_two_evaluated :: "script episode" where
  "ep_two_evaluated =
     \<lparr>l_qtable = [[0, 0], [0, 0]], l_state = 0, l_done = True, l_reward = 1, l_steps = 2,
      l_world = w_empty\<rparr>"

definition run_two :: "script run" where
  "run_two = \<lparr>r_qtable = [[0, 0], [0, 0]], r_rewards = [], r_steps = [], r_world = w_two\<rparr>"

definition run_two_done :: "script run" where
  "run_two_done =
     \<lparr>r_qtable = [[0, 0], [1/2, 0]], r_rewards = [1], r_steps = [2], r_world = w_empty\<rparr>"

definition trials_two_done :: "script trials" where
  "trials_two_done =
     \<lparr>t_qtable = [[0, 0], [0, 0]], t_successes = 1, t_rewards = [1], t_steps = [2],
      t_world = w_empty\<rparr>"

definition w_halves :: script where
  "w_halves =
     \<lparr>s_steps = [(1, 1/2, False, False), (0, 1/2, True, False)], s_draws = [], s_samples = []\<rparr>"

definition w_mixed :: script where
  "w_mixed =
     \<lparr>s_steps = [(1, 1/2, False, False), (0, 1/2, True, False), (1, 1/2, True, False)],
      s_draws = [], s_samples = []\<rparr>"

definition trials_mixed_done :: "script trials" where
  "trials_mixed_done =
     \<lparr>t_qtable = [[0, 0], [0, 0]], t_successes = 1, t_rewards = [1, 1/2], t_steps = [2, 1],
      t_world = w_empty\<rparr>"

definition report_mixed :: eval_report where
  "report_mixed = \<lparr>mean_reward = 3/4, max_steps = 2, success_rate = 1/2\<rparr>"

definition h_tenth :: hyper where
  "h_tenth = \<lparr>alpha = 1/10, gamma = 9/10, epsilon = 1/10, num_episodes = 1\<rparr>"

section \<open>Auxiliary facts\<close>

subsection \<open>Indexing and \<^verbatim>\<open>np.argmax\<close>\<close>

lemma np_index_bound: "np_index n i = Some k \<Longrightarrow> k < n"
  by (auto simp: np_index_def split: if_splits)

lemma np_index_in_range: "0 \<le> i \<Longrightarrow> i < int n \<Longrightarrow> np_index n i = Some (nat i)"
  by (simp add: np_index_def)

lemma np_index_int: "k < n \<Longrightarrow> np_index n (int k) = Some k"
  by (simp add: np_index_def)

lemma argmax_scan_value:
  "mi < length pre \<Longrightarrow> pre ! mi = mp \<Longrightarrow>
   argmax_scan xs (length pre) mp mi < length (pre @ xs) \<and>
   (pre @ xs) ! argmax_scan xs (length pre) mp mi = fold max xs mp"
proof (induction xs arbitrary: pre mp mi)
  case Nil
  then show ?case by simp
next
  case (Cons x xs)
  show ?case
  proof (cases "mp < x")
    case True
    have "argmax_scan xs (length (pre @ [x])) x (length pre) < length ((pre @ [x]) @ xs) \<and>
          ((pre @ [x]) @ xs) ! argmax_scan xs (length (pre @ [x])) x (length pre) = fold max xs x"
      by (rule Cons.IH) simp_all
    with True show ?thesis by (simp add: max_absorb1)
  next
    case False
    have "argmax_scan xs (length (pre @ [x])) mp mi < length ((pre @ [x]) @ xs) \<and>
          ((pre @ [x]) @ xs) ! argmax_scan xs (length (pre @ [x])) mp mi = fold max xs mp"
      using Cons.prems by (intro Cons.IH) (simp_all add: nth_append)
    with False show ?thesis by (simp add: max_absorb2)
  qed
qed

lemma argmax_scan_first:
  "mi < length pre \<Longrightarrow> pre ! mi = mp \<Longrightarrow> \<forall>j<mi. pre ! j < mp \<Longrightarrow> \<forall>j<length pre. pre ! j \<le> mp \<Longrightarrow>
   \<forall>j < argmax_scan xs (length pre) mp mi. (pre @ xs) ! j < (pre @ xs) ! argmax_scan xs (length pre) mp mi"
proof (induction xs arbitrary: pre mp mi)
  case Nil
  then show ?case by simp
next
  case (Cons x xs)
  show ?case
  proof (cases "mp < x")
    case True
    have "\<forall>j < argmax_scan xs (length (pre @ [x])) x (length pre).
            ((pre @ [x]) @ xs) ! j < ((pre @ [x]) @ xs) ! argmax_scan xs (length (pre @ [x])) x (length pre)"
      using Cons.prems True by (intro Cons.IH) (auto simp: nth_append less_Suc_eq)
    with True show ?thesis by simp
  next
    case False
    have "\<forall>j < argmax_scan xs (length (pre @ [x])) mp mi.
            ((pre @ [x]) @ xs) ! j < ((pre @ [x]) @ xs) ! argmax_scan xs (length (pre @ [x])) mp mi"
      using Cons.prems False by (intro Cons.IH) (auto simp: nth_append less_Suc_eq)
    with False show ?thesis by simp
  qed
qed

lemma np_argmax_spec:
  assumes "row \<noteq> []"
  shows "\<exists>k<length row. np_argmax row = Inr (int k) \<and> row ! k = Max (set row) \<and>
           (\<forall>j<k. row ! j < row ! k)"
proof -
  from assms obtain x xs where row: "row = x # xs" by (cases row) auto
  let ?k = "argmax_scan xs (length [x]) x 0"
  have v: "?k < length ([x] @ xs) \<and> ([x] @ xs) ! ?k = fold max xs x"
    by (rule argmax_scan_value) simp_all
  have f: "\<forall>j < ?k. ([x] @ xs) ! j < ([x] @ xs) ! ?k"
    by (rule argmax_scan_first) simp_all
  have m: "fold max xs x = Max (set row)"
    unfolding row using Max.set_eq_fold [of x xs] by simp
  show ?thesis
    using v f m unfolding row by (intro exI [of _ ?k]) (simp add: np_argmax_def)
qed

subsection \<open>The update rule\<close>

lemma row_at_InrD:
  "row_at qt s = Inr row \<Longrightarrow> \<exists>i. np_index (length qt) s = Some i \<and> row = qt ! i"
  by (auto simp: row_at_def split: option.splits)

lemma cell_at_row:
  "row_at qt s = Inr row \<Longrightarrow> k < length row \<Longrightarrow> cell_at qt s (int k) = Inr (row ! k)"
  by (auto simp: row_at_def cell_at_def np_index_int split: option.splits)

lemma q_update_result:
  assumes i: "np_index (length qt) s = Some i"
    and j: "np_index (length (qt ! i)) a = Some j"
    and row: "row_at qt s' = Inr row"
    and ne: "row \<noteq> []"
  shows "q_update p h qt s a r s' =
           Inr (qt[i := (qt ! i)[j := td_value p h (qt ! i ! j) r (Max (set row))]])"
proof -
  from np_argmax_spec [OF ne] obtain k where k: "k < length row"
    and am: "np_argmax row = Inr (int k)" and mx: "row ! k = Max (set row)"
    by blast
  have c: "cell_at qt s' (int k) = Inr (Max (set row))"
    using cell_at_row [OF row k] mx by simp
  have q: "cell_at qt s a = Inr (qt ! i ! j)"
    using i j by (simp add: cell_at_def)
  show ?thesis
    using i j by (simp add: q_update_def row am c q cell_set_def td_value_def)
qed

lemma q_update_InrD:
  assumes "q_update p h qt s a r s' = Inr qt'"
  shows "\<exists>i j row. np_index (length qt) s = Some i \<and> np_index (length (qt ! i)) a = Some j \<and>
           row_at qt s' = Inr row \<and> row \<noteq> []"
proof -
  from assms obtain row where row: "row_at qt s' = Inr row"
    by (auto simp: q_update_def split: sum.splits)
  from assms row have ne: "row \<noteq> []"
    by (auto simp: q_update_def np_argmax_def split: sum.splits)
  from assms obtain q where "cell_at qt s a = Inr q"
    by (auto simp: q_update_def Let_def split: sum.splits)
  then obtain i j where "np_index (length qt) s = Some i" "np_index (length (qt ! i)) a = Some j"
    by (auto simp: cell_at_def split: option.splits)
  with row ne show ?thesis by blast
qed

lemma q_update_frame:
  assumes "q_update p h qt s a r s' = Inr qt'"
  shows "\<exists>i j. np_index (length qt) s = Some i \<and> np_index (length (qt ! i)) a = Some j \<and>
           (\<forall>i' j'. (i', j') \<noteq> (i, j) \<longrightarrow> qt' ! i' ! j' = qt ! i' ! j') \<and>
           map length qt' = map length qt"
proof -
  from q_update_InrD [OF assms] obtain i j row where i: "np_index (length qt) s = Some i"
    and j: "np_index (length (qt ! i)) a = Some j"
    and row: "row_at qt s' = Inr row" and ne: "row \<noteq> []"
    by blast
  let ?v = "td_value p h (qt ! i ! j) r (Max (set row))"
  have qt': "qt' = qt[i := (qt ! i)[j := ?v]]"
    using q_update_result [OF i j row ne, of p h r] assms by simp
  have il: "i < length qt" using i by (rule np_index_bound)
  have frame: "qt' ! i' ! j' = qt ! i' ! j'" if "(i', j') \<noteq> (i, j)" for i' j'
  proof (cases "i' = i")
    case True
    with that have "j' \<noteq> j" by simp
    with True il show ?thesis by (simp add: qt')
  next
    case False
    then show ?thesis by (simp add: qt')
  qed
  have shape: "map length qt' = map length qt"
    unfolding qt' using il by (simp add: map_update list_update_same_conv)
  from i j frame shape show ?thesis by blast
qed

subsection \<open>The action selector\<close>

lemma np_index_None_iff: "np_index n i = None \<longleftrightarrow> i < - int n \<or> int n \<le> i"
  by (auto simp: np_index_def)

lemma cell_at_0_row:
  "row_at qt s = Inr row \<Longrightarrow> row \<noteq> [] \<Longrightarrow> cell_at qt s 0 = Inr (row ! 0)"
  using cell_at_row [of qt s row 0] by simp

lemma greedy_exploit_argmax:
  assumes "rand_uniform env w = (u, w1)"
    and "\<not> u < epsilon h"
    and "row_at qt s = Inr row"
    and "row \<noteq> []"
    and "bool_as_float (np_all row) \<noteq> row ! 0"
  shows "greedy_epsilon env h qt s w = (np_argmax row, w1)"
proof -
  have c: "cell_at qt s 0 = Inr (row ! 0)"
    using cell_at_0_row [OF assms(3,4)] .
  show ?thesis
    using assms(1,2,3,5) c
    by (simp add: greedy_epsilon_def split: sum.splits)
qed

subsection \<open>One iteration, and the exit of the loops\<close>

lemma train_iter_cases:
  assumes "train_iter env p h st = (out, st')"
  obtains
    (select_raises) e w1 where
      "greedy_epsilon env h (l_qtable st) (l_state st) (l_world st) = (Inl e, w1)"
      "out = Some e" "st' = st\<lparr>l_world := w1\<rparr>"
  | (update_raises) a w1 ns r te tr w2 e where
      "greedy_epsilon env h (l_qtable st) (l_state st) (l_world st) = (Inr a, w1)"
      "env_step env a w1 = ((ns, r, te, tr), w2)"
      "q_update p h (l_qtable st) (l_state st) a r ns = Inl e"
      "out = Some e" "st' = st\<lparr>l_world := w2\<rparr>"
  | (stepped) a w1 ns r te tr w2 qt' where
      "greedy_epsilon env h (l_qtable st) (l_state st) (l_world st) = (Inr a, w1)"
      "env_step env a w1 = ((ns, r, te, tr), w2)"
      "q_update p h (l_qtable st) (l_state st) a r ns = Inr qt'"
      "out = None"
      "st' = \<lparr>l_qtable = qt', l_state = ns, l_done = (te \<or> tr),
              l_reward = fadd p (l_reward st) r, l_steps = l_steps st + 1, l_world = w2\<rparr>"
proof -
  obtain g w1 where g: "greedy_epsilon env h (l_qtable st) (l_state st) (l_world st) = (g, w1)"
    by (cases "greedy_epsilon env h (l_qtable st) (l_state st) (l_world st)")
  show ?thesis
  proof (cases g)
    case (Inl e)
    with assms g have "out = Some e" "st' = st\<lparr>l_world := w1\<rparr>"
      by (simp_all add: train_iter_def)
    with g Inl show ?thesis by (intro select_raises) simp_all
  next
    case (Inr a)
    obtain ns r te tr w2 where s: "env_step env a w1 = ((ns, r, te, tr), w2)"
      by (cases "env_step env a w1") auto
    show ?thesis
    proof (cases "q_update p h (l_qtable st) (l_state st) a r ns")
      case (Inl e)
      with assms g Inr s have "out = Some e" "st' = st\<lparr>l_world := w2\<rparr>"
        by (simp_all add: train_iter_def)
      with g Inr s Inl show ?thesis by (intro update_raises) simp_all
    next
      case u: (Inr qt')
      with assms g Inr s have "out = None"
        "st' = \<lparr>l_qtable = qt', l_state = ns, l_done = (te \<or> tr),
              l_reward = fadd p (l_reward st) r, l_steps = l_steps st + 1, l_world = w2\<rparr>"
        by (simp_all add: train_iter_def)
      with g Inr s u show ?thesis by (intro stepped) simp_all
    qed
  qed
qed

lemma eval_iter_cases:
  assumes "eval_iter env p st = (out, st')"
  obtains
    (row_raises) e where "row_at (l_qtable st) (l_state st) = Inl e" "out = Some e" "st' = st"
  | (argmax_raises) row e where
      "row_at (l_qtable st) (l_state st) = Inr row" "np_argmax row = Inl e"
      "out = Some e" "st' = st"
  | (stepped) row a ns r te tr w' where
      "row_at (l_qtable st) (l_state st) = Inr row" "np_argmax row = Inr a"
      "env_step env a (l_world st) = ((ns, r, te, tr), w')"
      "out = None"
      "st' = st\<lparr>l_state := ns, l_reward := fadd p (l_reward st) r, l_steps := l_steps st + 1,
                 l_done := (te \<or> tr), l_world := w'\<rparr>"
proof (cases "row_at (l_qtable st) (l_state st)")
  case (Inl e)
  with assms have "out = Some e" "st' = st" by (simp_all add: eval_iter_def)
  with Inl show ?thesis by (intro row_raises) simp_all
next
  case row: (Inr row)
  show ?thesis
  proof (cases "np_argmax row")
    case (Inl e)
    with assms row have "out = Some e" "st' = st" by (simp_all add: eval_iter_def)
    with row Inl show ?thesis by (intro argmax_raises) simp_all
  next
    case (Inr a)
    obtain ns r te tr w' where s: "env_step env a (l_world st) = ((ns, r, te, tr), w')"
      by (cases "env_step env a (l_world st)") auto
    with assms row Inr have "out = None"
      "st' = st\<lparr>l_state := ns, l_reward := fadd p (l_reward st) r, l_steps := l_steps st + 1,
                 l_done := (te \<or> tr), l_world := w'\<rparr>"
      by (simp_all add: eval_iter_def)
    with row Inr s show ?thesis by (intro stepped) simp_all
  qed
qed

lemma train_loop_exit:
  assumes "train_loop env p h st = Some y"
  shows "fst y = None \<longrightarrow> l_done (snd y)"
proof (rule train_loop.raw_induct
    [where P = "\<lambda>env p h st y. fst y = None \<longrightarrow> l_done (snd y)", OF _ assms], goal_cases)
  case (1 loop env p h st y)
  show ?case
  proof (cases "l_done st")
    case True
    with 1(2) have "y = (None, st)" by simp
    with True show ?thesis by simp
  next
    case False
    obtain out st' where it: "train_iter env p h st = (out, st')" by (cases "train_iter env p h st")
    show ?thesis
    proof (cases out)
      case None
      with 1(2) False it have "loop env p h st' = Some y" by simp
      then show ?thesis by (rule 1(1))
    next
      case (Some e)
      with 1(2) False it have "y = (Some e, st')" by simp
      then show ?thesis by simp
    qed
  qed
qed

lemma eval_loop_exit:
  assumes "eval_loop env p st = Some y"
  shows "fst y = None \<longrightarrow> l_done (snd y)"
proof (rule eval_loop.raw_induct
    [where P = "\<lambda>env p st y. fst y = None \<longrightarrow> l_done (snd y)", OF _ assms], goal_cases)
  case (1 loop env p st y)
  show ?case
  proof (cases "l_done st")
    case True
    with 1(2) have "y = (None, st)" by simp
    with True show ?thesis by simp
  next
    case False
    obtain out st' where it: "eval_iter env p st = (out, st')" by (cases "eval_iter env p st")
    show ?thesis
    proof (cases out)
      case None
      with 1(2) False it have "loop env p st' = Some y" by simp
      then show ?thesis by (rule 1(1))
    next
      case (Some e)
      with 1(2) False it have "y = (Some e, st')" by simp
      then show ?thesis by simp
    qed
  qed
qed

subsection \<open>The episode loops\<close>

lemmas model_defs =
  greedy_epsilon_def q_update_def train_iter_def eval_iter_def row_at_def cell_at_def cell_set_def
  np_index_def np_all_def bool_as_float_def np_argmax_def np_max_def np_zeros_def
  run_start_def trials_start_def
  fadd_def fsub_def fmul_def fdiv_def exact_def scripted_def h_half_def ep_start_def

lemma ep_one_train_iter: "train_iter (scripted 2 2) exact h_half ep_one = (None, ep_one_trained)"
  by (simp add: ep_one_def ep_one_trained_def model_defs)

lemma ep_one_eval_iter: "eval_iter (scripted 2 2) exact ep_one = (None, ep_one_evaluated)"
  by (simp add: ep_one_def ep_one_evaluated_def model_defs)

lemma ep_one_train_loop: "train_loop (scripted 2 2) exact h_half ep_one = Some (None, ep_one_trained)"
  by (subst train_loop.simps, simp add: ep_one_train_iter, subst train_loop.simps)
    (simp add: ep_one_def ep_one_trained_def ep_start_def)

lemma ep_one_eval_loop: "eval_loop (scripted 2 2) exact ep_one = Some (None, ep_one_evaluated)"
  by (subst eval_loop.simps, simp add: ep_one_eval_iter, subst eval_loop.simps)
    (simp add: ep_one_def ep_one_evaluated_def ep_start_def)

lemma ep_bad_train_iter: "train_iter (scripted 2 2) exact h_half ep_bad = (Some IndexError, ep_bad)"
  by (simp add: ep_bad_def model_defs)

lemma ep_bad_eval_iter: "eval_iter (scripted 2 2) exact ep_bad = (Some IndexError, ep_bad)"
  by (simp add: ep_bad_def model_defs)

subsection \<open>Indices out of range\<close>

lemma row_at_Inl: "row_at qt s = Inl e \<Longrightarrow> e = IndexError \<and> np_index (length qt) s = None"
  by (auto simp: row_at_def split: option.splits)

lemma row_at_rect:
  "row_at qt s = Inr row \<Longrightarrow> \<forall>row\<in>set qt. length row = A \<Longrightarrow> length row = A"
  by (auto simp: row_at_def split: option.splits dest: np_index_bound)

lemma cell_at_Inl: "cell_at qt s a = Inl e \<Longrightarrow> e = IndexError"
  by (auto simp: cell_at_def split: option.splits)

lemma cell_set_Inl: "cell_set qt s a v = Inl e \<Longrightarrow> e = IndexError"
  by (auto simp: cell_set_def split: option.splits)

lemma np_argmax_Inl: "np_argmax row = Inl e \<Longrightarrow> row = []"
  by (auto simp: np_argmax_def split: list.splits)

lemma q_update_Inl:
  assumes rect: "\<forall>row\<in>set qt. length row = A" and A: "0 < A"
    and u: "q_update p h qt s a r s' = Inl e"
  shows "e = IndexError"
proof (cases "row_at qt s'")
  case (Inl e')
  with u have "e = e'" by (simp add: q_update_def)
  with Inl show ?thesis by (auto dest: row_at_Inl)
next
  case row: (Inr row)
  with rect A have ne: "row \<noteq> []" by (auto dest: row_at_rect)
  from np_argmax_spec [OF ne] obtain k where k: "k < length row"
    and am: "np_argmax row = Inr (int k)" by blast
  have c: "cell_at qt s' (int k) = Inr (row ! k)" by (rule cell_at_row [OF row k])
  show ?thesis
  proof (cases "cell_at qt s a")
    case (Inl e')
    with u row am c have "e = e'" by (simp add: q_update_def)
    with Inl show ?thesis by (auto dest: cell_at_Inl)
  next
    case (Inr q)
    with u row am c obtain v where "cell_set qt s a v = Inl e" by (simp add: q_update_def)
    then show ?thesis by (rule cell_set_Inl)
  qed
qed

lemma greedy_epsilon_Inl:
  assumes rect: "\<forall>row\<in>set qt. length row = A" and A: "0 < A"
    and g: "greedy_epsilon env h qt s w = (Inl e, w1)"
  shows "e = IndexError"
proof -
  obtain u w0 where u: "rand_uniform env w = (u, w0)" by (cases "rand_uniform env w")
  show ?thesis
  proof (cases "u < epsilon h")
    case True
    with g u show ?thesis by (simp add: greedy_epsilon_def split: prod.splits)
  next
    case False
    show ?thesis
    proof (cases "row_at qt s")
      case (Inl e')
      with g u False have "e = e'" by (simp add: greedy_epsilon_def)
      with Inl show ?thesis by (auto dest: row_at_Inl)
    next
      case row: (Inr row)
      with rect A have ne: "row \<noteq> []" by (auto dest: row_at_rect)
      have c: "cell_at qt s 0 = Inr (row ! 0)" by (rule cell_at_0_row [OF row ne])
      from np_argmax_spec [OF ne] obtain k where "np_argmax row = Inr (int k)" by blast
      with g u False row c show ?thesis
        by (simp add: greedy_epsilon_def split: prod.splits if_splits)
    qed
  qed
qed

subsection \<open>Evaluation\<close>

lemma eval_iter_qtable:
  assumes "eval_iter env p st = (out, st')"
  shows "l_qtable st' = l_qtable st"
  using assms by (cases rule: eval_iter_cases) simp_all

lemma eval_loop_qtable:
  assumes "eval_loop env p st = Some y"
  shows "l_qtable (snd y) = l_qtable st"
proof (rule eval_loop.raw_induct
    [where P = "\<lambda>env p st y. l_qtable (snd y) = l_qtable st", OF _ assms], goal_cases)
  case (1 loop env p st y)
  show ?case
  proof (cases "l_done st")
    case True
    with 1(2) have "y = (None, st)" by simp
    then show ?thesis by simp
  next
    case False
    obtain out st' where it: "eval_iter env p st = (out, st')" by (cases "eval_iter env p st")
    have q: "l_qtable st' = l_qtable st" using it by (rule eval_iter_qtable)
    show ?thesis
    proof (cases out)
      case None
      with 1(2) False it have "loop env p st' = Some y" by simp
      then have "l_qtable (snd y) = l_qtable st'" by (rule 1(1))
      with q show ?thesis by simp
    next
      case (Some e)
      with 1(2) False it have "y = (Some e, st')" by simp
      with q show ?thesis by simp
    qed
  qed
qed

lemma eval_episodes_step:
  assumes "eval_episodes env p (Suc n) acc = Some y"
  obtains (raises) s0 w0 e st where
      "env_reset env (t_world acc) = (s0, w0)"
      "eval_loop env p \<lparr>l_qtable = t_qtable acc, l_state = s0, l_done = False,
                         l_reward = 0, l_steps = 0, l_world = w0\<rparr> = Some (Some e, st)"
      "y = (Some e, acc\<lparr>t_qtable := l_qtable st, t_world := l_world st\<rparr>)"
  | (continues) s0 w0 st where
      "env_reset env (t_world acc) = (s0, w0)"
      "eval_loop env p \<lparr>l_qtable = t_qtable acc, l_state = s0, l_done = False,
                         l_reward = 0, l_steps = 0, l_world = w0\<rparr> = Some (None, st)"
      "eval_episodes env p n
         \<lparr>t_qtable = l_qtable st,
          t_successes = (if l_reward st = 1 then t_successes acc + 1 else t_successes acc),
          t_rewards = t_rewards acc @ [l_reward st],
          t_steps = t_steps acc @ [l_steps st],
          t_world = l_world st\<rparr> = Some y"
proof -
  obtain s0 w0 where r: "env_reset env (t_world acc) = (s0, w0)"
    by (cases "env_reset env (t_world acc)")
  let ?st0 = "\<lparr>l_qtable = t_qtable acc, l_state = s0, l_done = False,
                 l_reward = 0, l_steps = 0, l_world = w0\<rparr>"
  from assms r obtain out st where l: "eval_loop env p ?st0 = Some (out, st)"
    by (cases "eval_loop env p ?st0") auto
  show ?thesis
  proof (cases out)
    case None
    with assms r l show ?thesis by (intro continues [of s0 w0 st]) simp_all
  next
    case (Some e)
    with assms r l show ?thesis by (intro raises [of s0 w0 e st]) simp_all
  qed
qed

lemma eval_episodes_qtable:
  "eval_episodes env p n acc = Some y \<Longrightarrow> t_qtable (snd y) = t_qtable acc"
proof (induction n arbitrary: acc)
  case 0
  then show ?case by auto
next
  case (Suc n)
  from Suc.prems show ?case
  proof (cases rule: eval_episodes_step)
    case (raises s0 w0 e st)
    from eval_loop_qtable [OF raises(2)] raises(3) show ?thesis by simp
  next
    case (continues s0 w0 st)
    from Suc.IH [OF continues(3)] eval_loop_qtable [OF continues(2)] show ?thesis by simp
  qed
qed

lemma eval_episodes_count:
  "eval_episodes env p n acc = Some (None, acc') \<Longrightarrow>
     \<exists>rs ss. t_rewards acc' = t_rewards acc @ rs \<and> length rs = n \<and>
       t_steps acc' = t_steps acc @ ss \<and> length ss = n \<and>
       t_successes acc' = t_successes acc + length (filter (\<lambda>r. r = 1) rs)"
proof (induction n arbitrary: acc)
  case 0
  then show ?case by auto
next
  case (Suc n)
  from Suc.prems show ?case
  proof (cases rule: eval_episodes_step)
    case (raises s0 w0 e st)
    then show ?thesis by simp
  next
    case (continues s0 w0 st)
    from Suc.IH [OF continues(3)] obtain rs ss where
      rs: "t_rewards acc' = (t_rewards acc @ [l_reward st]) @ rs" "length rs = n"
      and ss: "t_steps acc' = (t_steps acc @ [l_steps st]) @ ss" "length ss = n"
      and k: "t_successes acc' =
                (if l_reward st = 1 then t_successes acc + 1 else t_successes acc) +
                length (filter (\<lambda>r. r = 1) rs)"
      by auto
    show ?thesis
      using rs ss k
      by (intro exI [of _ "l_reward st # rs"] exI [of _ "l_steps st # ss"]) simp
  qed
qed

lemma np_max_Inr:
  assumes "np_max xs = Inr mx"
  shows "xs \<noteq> [] \<and> mx = Max (set xs)"
proof (cases xs)
  case Nil
  with assms show ?thesis by (simp add: np_max_def)
next
  case (Cons y ys)
  with assms have "mx = fold max ys y" by (simp add: np_max_def)
  with Cons Max.set_eq_fold [of y ys] show ?thesis by simp
qed

lemma evaluation_reports:
  assumes "eval_episodes env p num_trials (trials_start qt w) = Some (None, acc)"
    and "0 < num_trials"
  shows "\<exists>rep. evaluation env p qt num_trials w = Some (Inr rep, t_qtable acc, t_world acc)"
proof -
  from eval_episodes_count [OF assms(1)] have "length (t_steps acc) = num_trials"
    by (auto simp: trials_start_def)
  with assms(2) obtain y ys where "t_steps acc = y # ys" by (cases "t_steps acc") auto
  then have "np_max (t_steps acc) = Inr (fold max ys y)" by (simp add: np_max_def)
  with assms(1) show ?thesis by (simp add: evaluation_def)
qed

lemma w_eval_episodes:
  "eval_episodes (scripted 2 2) exact 2 (trials_start [[0, 0], [0, 0]] w_eval)
     = Some (None, \<lparr>t_qtable = [[0, 0], [0, 0]], t_successes = 1, t_rewards = [1, 0],
                    t_steps = [1, 1], t_world = w_empty\<rparr>)"
  by (simp add: numeral_2_eq_2 eval_loop.simps w_eval_def w_empty_def model_defs)

lemma w_eval_evaluation:
  "evaluation (scripted 2 2) exact [[0, 0], [0, 0]] 2 w_eval
   = Some (Inr \<lparr>mean_reward = 1/2, max_steps = 1, success_rate = 1/2\<rparr>, [[0, 0], [0, 0]], w_empty)"
  by (simp add: evaluation_def w_eval_episodes) (simp add: model_defs)

lemma w_one_episodes:
  "eval_episodes (scripted 2 2) exact (Suc 0) (trials_start [[0, 1/2], [0, 0]] w_one)
   = Some (None, trials_one)"
  by (simp add: eval_loop.simps w_one_def w_empty_def trials_start_def trials_one_def model_defs)

lemma w_one_evaluation:
  "evaluation (scripted 2 2) exact [[0, 1/2], [0, 0]] 1 w_one
   = Some (Inr report_one, [[0, 1/2], [0, 0]], w_empty)"
  using w_one_episodes
  by (simp add: evaluation_def trials_start_def trials_one_def report_one_def np_max_def
      fdiv_def exact_def)

lemma w_eval_evaluation':
  "evaluation (scripted 2 2) exact [[0, 0], [0, 0]] 2 w_eval
   = Some (Inr report_half, [[0, 0], [0, 0]], w_empty)"
  by (simp add: w_eval_evaluation report_half_def)

subsection \<open>Training\<close>

lemma train_episodes_step:
  assumes "train_episodes env p h (Suc n) acc = Some y"
  obtains (raises) s0 w0 e st where
      "env_reset env (r_world acc) = (s0, w0)"
      "train_loop env p h \<lparr>l_qtable = r_qtable acc, l_state = s0, l_done = False,
                         l_reward = 0, l_steps = 0, l_world = w0\<rparr> = Some (Some e, st)"
      "y = (Some e, acc\<lparr>r_qtable := l_qtable st, r_world := l_world st\<rparr>)"
  | (continues) s0 w0 st where
      "env_reset env (r_world acc) = (s0, w0)"
      "train_loop env p h \<lparr>l_qtable = r_qtable acc, l_state = s0, l_done = False,
                         l_reward = 0, l_steps = 0, l_world = w0\<rparr> = Some (None, st)"
      "train_episodes env p h n
         \<lparr>r_qtable = l_qtable st,
          r_rewards = r_rewards acc @ [l_reward st],
          r_steps = r_steps acc @ [l_steps st],
          r_world = l_world st\<rparr> = Some y"
proof -
  obtain s0 w0 where r: "env_reset env (r_world acc) = (s0, w0)"
    by (cases "env_reset env (r_world acc)")
  let ?st0 = "\<lparr>l_qtable = r_qtable acc, l_state = s0, l_done = False,
                 l_reward = 0, l_steps = 0, l_world = w0\<rparr>"
  from assms r obtain out st where l: "train_loop env p h ?st0 = Some (out, st)"
    by (cases "train_loop env p h ?st0") auto
  show ?thesis
  proof (cases out)
    case None
    with assms r l show ?thesis by (intro continues [of s0 w0 st]) simp_all
  next
    case (Some e)
    with assms r l show ?thesis by (intro raises [of s0 w0 e st]) simp_all
  qed
qed

lemma train_episodes_lengths:
  "train_episodes env p h n acc = Some (None, acc') \<Longrightarrow>
     length (r_rewards acc') = length (r_rewards acc) + n \<and>
     length (r_steps acc') = length (r_steps acc) + n"
proof (induction n arbitrary: acc)
  case 0
  then show ?case by auto
next
  case (Suc n)
  from Suc.prems show ?case
  proof (cases rule: train_episodes_step)
    case (raises s0 w0 e st)
    then show ?thesis by simp
  next
    case (continues s0 w0 st)
    from Suc.IH [OF continues(3)] show ?thesis by simp
  qed
qed

lemma run_a_episodes:
  "train_episodes (scripted 2 2) exact h_two 2 (run_start (scripted 2 2) w_a) = Some (None, run_a)"
  by (simp add: numeral_2_eq_2 train_loop.simps run_start_def run_a_def w_a_def w_empty_def
      h_two_def model_defs)

lemma run_b_episodes:
  "train_episodes (scripted 2 2) exact h_two 2 (run_start (scripted 2 2) w_b) = Some (None, run_b)"
  by (simp add: numeral_2_eq_2 train_loop.simps run_start_def run_b_def w_b_def w_empty_def
      h_two_def model_defs)

lemma run_a_result: "run_env (scripted 2 2) exact h_two w_a = Some (Inr result_ab, w_empty)"
  using run_a_episodes
  by (simp add: run_env_def run_start_def h_two_def run_a_def result_ab_def np_max_def exact_def)

lemma run_b_result: "run_env (scripted 2 2) exact h_two w_b = Some (Inr result_ab, w_empty)"
  using run_b_episodes
  by (simp add: run_env_def run_start_def h_two_def run_b_def result_ab_def np_max_def exact_def)

subsection \<open>Convergence of the replayed update\<close>

lemma power_99_1000: "(99/100 :: real) ^ 1000 \<le> 44 / 1000000"
proof -
  have a: "(99/100 :: real) ^ 10 \<le> 9044/10000" by (simp add: power_divide)
  have b: "(9044/10000 :: real) ^ 10 \<le> 3662/10000" by (simp add: power_divide)
  have c: "(3662/10000 :: real) ^ 10 \<le> 44/1000000" by (simp add: power_divide)
  have "(99/100 :: real) ^ 1000 = (((99/100) ^ 10) ^ 10) ^ 10"
    by (simp add: power_mult [symmetric])
  also have "\<dots> \<le> ((9044/10000) ^ 10) ^ 10"
    by (intro power_mono a) simp_all
  also have "\<dots> \<le> (3662/10000) ^ 10"
    by (intro power_mono b) simp_all
  also have "\<dots> \<le> 44/1000000" by (rule c)
  finally show ?thesis .
qed

lemma power_99_1000_lower: "(4 / 100000 :: real) \<le> (99/100) ^ 1000"
proof -
  have a: "(9043/10000 :: real) \<le> (99/100) ^ 10" by (simp add: power_divide)
  have b: "(3657/10000 :: real) \<le> (9043/10000) ^ 10" by (simp add: power_divide)
  have c: "(4/100000 :: real) \<le> (3657/10000) ^ 10" by (simp add: power_divide)
  have "(4/100000 :: real) \<le> (3657/10000) ^ 10" by (rule c)
  also have "\<dots> \<le> ((9043/10000) ^ 10) ^ 10"
    by (intro power_mono b) simp_all
  also have "\<dots> \<le> (((99/100) ^ 10) ^ 10) ^ 10"
    by (intro power_mono a) simp_all
  also have "\<dots> = (99/100 :: real) ^ 1000"
    by (simp add: power_mult [symmetric])
  finally show ?thesis .
qed

lemma normal_range: "(1 :: real) / 2 ^ 1022 \<le> 1 / 1000000" "(64 :: real) \<le> 2 ^ 1023"
  by simp_all

lemma step_error:
  fixes q :: real
  assumes fl0: "fl p 0 = 0"
    and fl: "\<forall>x. 1 / 2 ^ 1022 \<le> \<bar>x\<bar> \<and> \<bar>x\<bar> \<le> 2 ^ 1023 \<longrightarrow> \<bar>fl p x - x\<bar> \<le> \<bar>x\<bar> / 2 ^ 53"
    and al: "alpha h = fl p (1/10)" and ga: "gamma h = fl p (9/10)"
    and q0: "q = 0 \<or> 9/100 \<le> q" and gap: "3/100000 \<le> 1 - q / 10"
  shows "\<bar>td_value p h q 1 q - (99/100 * q + 1/10)\<bar> \<le> 7 / 2 ^ 47"
proof -
  define d :: real where "d = 1 / 2 ^ 47"
  have d_pos: "0 < d" by (simp add: d_def)
  have d_small: "d \<le> 1/100000000" by (simp add: d_def)
  have q_pos: "0 \<le> q" using q0 by auto
  have q1: "q \<le> 10" using gap by simp
  have R: "\<bar>fl p x - x\<bar> \<le> d" if "x = 0 \<or> 1/1000000 \<le> \<bar>x\<bar>" and "\<bar>x\<bar> \<le> 64" for x
  proof (cases "x = 0")
    case True
    with fl0 d_pos show ?thesis by simp
  next
    case False
    with that(1) have "1/1000000 \<le> \<bar>x\<bar>" by simp
    with normal_range(1) have lo: "1 / 2 ^ 1022 \<le> \<bar>x\<bar>" by (rule order_trans)
    from that(2) normal_range(2) have hi: "\<bar>x\<bar> \<le> 2 ^ 1023" by (rule order_trans)
    from fl lo hi have "\<bar>fl p x - x\<bar> \<le> \<bar>x\<bar> / 2 ^ 53" by blast
    also have "\<dots> \<le> 64 / 2 ^ 53" using that(2) by (simp add: divide_right_mono)
    also have "\<dots> = d" by (simp add: d_def)
    finally show ?thesis .
  qed
  have ga': "\<bar>gamma h - 9/10\<bar> \<le> d" using R [of "9/10"] ga by simp
  have al': "\<bar>alpha h - 1/10\<bar> \<le> d" using R [of "1/10"] al by simp
  define x1 where "x1 = gamma h * q"
  define t1 where "t1 = fl p x1"
  define t2 where "t2 = fl p (1 + t1)"
  define t3 where "t3 = fl p (t2 - q)"
  define x4 where "x4 = alpha h * t3"
  define t4 where "t4 = fl p x4"
  define q' where "q' = fl p (q + t4)"
  have tv: "td_value p h q 1 q = q'"
    by (simp add: td_value_def fadd_def fmul_def fsub_def q'_def t4_def x4_def t3_def t2_def
        t1_def x1_def)
  have "x1 - 9/10 * q = (gamma h - 9/10) * q" by (simp add: x1_def algebra_simps)
  then have "\<bar>x1 - 9/10 * q\<bar> = \<bar>gamma h - 9/10\<bar> * q" using q_pos by (simp add: abs_mult)
  also have "\<dots> \<le> d * 10" using ga' q_pos q1 d_pos by (intro mult_mono) simp_all
  finally have e1: "\<bar>x1 - 9/10 * q\<bar> \<le> 10 * d" by simp
  have l1: "x1 = 0 \<or> 1/1000000 \<le> \<bar>x1\<bar>"
  proof (cases "q = 0")
    case True
    then show ?thesis by (simp add: x1_def)
  next
    case False
    with q0 have "9/100 \<le> q" by simp
    with e1 d_small have "1/1000000 \<le> x1" by linarith
    then show ?thesis by simp
  qed
  have b1: "\<bar>x1\<bar> \<le> 64" using e1 q_pos q1 d_small by linarith
  have e2: "\<bar>t1 - 9/10 * q\<bar> \<le> 11 * d" using R [OF l1 b1] e1 unfolding t1_def by linarith
  have l2: "1 + t1 = 0 \<or> 1/1000000 \<le> \<bar>1 + t1\<bar>" using e2 q_pos d_small by linarith
  have b2: "\<bar>1 + t1\<bar> \<le> 64" using e2 q_pos q1 d_small by linarith
  have e3: "\<bar>t2 - (1 + 9/10 * q)\<bar> \<le> 12 * d" using R [OF l2 b2] e2 unfolding t2_def by linarith
  have l3: "t2 - q = 0 \<or> 1/1000000 \<le> \<bar>t2 - q\<bar>" using e3 gap d_small by linarith
  have b3: "\<bar>t2 - q\<bar> \<le> 64" using e3 q_pos q1 d_small by linarith
  have e4: "\<bar>t3 - (1 - 1/10 * q)\<bar> \<le> 13 * d" using R [OF l3 b3] e3 unfolding t3_def by linarith
  have b4: "\<bar>t3\<bar> \<le> 2" using e4 q_pos q1 d_small by linarith
  have t3_lo: "2/100000 \<le> t3" using e4 gap d_small by linarith
  have "x4 - (1/10 - 1/100 * q) = (alpha h - 1/10) * t3 + 1/10 * (t3 - (1 - 1/10 * q))"
    by (simp add: x4_def algebra_simps)
  then have "\<bar>x4 - (1/10 - 1/100 * q)\<bar>
               \<le> \<bar>(alpha h - 1/10) * t3\<bar> + \<bar>1/10 * (t3 - (1 - 1/10 * q))\<bar>"
    by (simp only: abs_triangle_ineq)
  also have "\<bar>(alpha h - 1/10) * t3\<bar> \<le> d * 2"
    unfolding abs_mult using al' b4 d_pos by (intro mult_mono) simp_all
  also have "\<bar>1/10 * (t3 - (1 - 1/10 * q))\<bar> \<le> 1/10 * (13 * d)"
    unfolding abs_mult using e4 by simp
  finally have e5: "\<bar>x4 - (1/10 - 1/100 * q)\<bar> \<le> 4 * d" using d_pos by simp
  have l4: "x4 = 0 \<or> 1/1000000 \<le> \<bar>x4\<bar>" using e5 gap d_small by linarith
  have b5: "\<bar>x4\<bar> \<le> 64" using e5 q_pos q1 d_small by linarith
  have e6: "\<bar>t4 - (1/10 - 1/100 * q)\<bar> \<le> 5 * d" using R [OF l4 b5] e5 unfolding t4_def by linarith
  have l5: "q + t4 = 0 \<or> 1/1000000 \<le> \<bar>q + t4\<bar>" using e6 gap q_pos d_small by linarith
  have b6: "\<bar>q + t4\<bar> \<le> 64" using e6 q_pos q1 d_small by linarith
  have "\<bar>q' - (99/100 * q + 1/10)\<bar> \<le> 7 * d" using R [OF l5 b6] e6 d_pos unfolding q'_def by linarith
  then show ?thesis unfolding tv by (simp add: d_def)
qed

lemma Max_row:
  fixes row :: "real list"
  assumes j: "j < length row" and others: "\<forall>k<length row. k \<noteq> j \<longrightarrow> row ! k \<le> 0"
    and q: "0 \<le> row ! j"
  shows "Max (set row) = row ! j"
proof (rule Max_eqI)
  show "finite (set row)" by simp
  show "row ! j \<in> set row" using j by simp
  fix y assume "y \<in> set row"
  then obtain k where k: "k < length row" "y = row ! k" by (auto simp: in_set_conv_nth)
  show "y \<le> row ! j"
  proof (cases "k = j")
    case True
    with k show ?thesis by simp
  next
    case False
    with others k have "y \<le> 0" by simp
    with q show ?thesis by simp
  qed
qed

lemma replay_invariant:
  fixes K :: real
  assumes fl0: "fl p 0 = 0"
    and fl: "\<forall>x. 1 / 2 ^ 1022 \<le> \<bar>x\<bar> \<and> \<bar>x\<bar> \<le> 2 ^ 1023 \<longrightarrow> \<bar>fl p x - x\<bar> \<le> \<bar>x\<bar> / 2 ^ 53"
    and al: "alpha h = fl p (1/10)" and ga: "gamma h = fl p (9/10)"
    and K: "K = 700 / 2 ^ 47"
  shows "np_index (length qt) s = Some i \<Longrightarrow> np_index (length (qt ! i)) a = Some j \<Longrightarrow>
    \<forall>k<length (qt ! i). k \<noteq> j \<longrightarrow> qt ! i ! k \<le> 0 \<Longrightarrow>
    qt ! i ! j = 0 \<or> 9/100 \<le> qt ! i ! j \<Longrightarrow>
    \<bar>qt ! i ! j - (10 - 10 * (99/100) ^ m)\<bar> \<le> K \<Longrightarrow> m + n \<le> 1000 \<Longrightarrow>
    \<exists>qt'. replay p h n qt s a 1 s = Inr qt' \<and>
       \<bar>qt' ! i ! j - (10 - 10 * (99/100) ^ (m + n))\<bar> \<le> K"
proof (induction n arbitrary: qt m)
  case 0
  then show ?case by simp
next
  case (Suc n)
  let ?row = "qt ! i"
  let ?q = "qt ! i ! j"
  let ?q' = "td_value p h ?q 1 ?q"
  let ?qt1 = "qt[i := ?row[j := ?q']]"
  define P :: real where "P = (99/100) ^ m"
  have K0: "0 \<le> K" and K1: "K \<le> 1/1000000" by (simp_all add: K)
  have il: "i < length qt" using Suc.prems(1) by (rule np_index_bound)
  have jl: "j < length ?row" using Suc.prems(2) by (rule np_index_bound)
  have q_pos: "0 \<le> ?q" using Suc.prems(4) by auto
  have row: "row_at qt s = Inr ?row" using Suc.prems(1) by (simp add: row_at_def)
  have ne: "?row \<noteq> []" using jl by auto
  have mx: "Max (set ?row) = ?q" using jl Suc.prems(3) q_pos by (rule Max_row)
  have u: "q_update p h qt s a 1 s = Inr ?qt1"
    using q_update_result [OF Suc.prems(1,2) row ne, of p h 1] mx by simp
  have "(99/100 :: real) ^ 1000 \<le> (99/100) ^ m"
    using Suc.prems(6) by (intro power_decreasing) simp_all
  with power_99_1000_lower have P_lo: "4/100000 \<le> P" unfolding P_def by (rule order_trans)
  have inv: "\<bar>?q - (10 - 10 * P)\<bar> \<le> K" using Suc.prems(5) by (simp add: P_def)
  have gap: "3/100000 \<le> 1 - ?q / 10" using inv P_lo K1 by (simp add: abs_le_iff) 
  have "\<bar>?q' - (99/100 * ?q + 1/10)\<bar> \<le> 7 / 2 ^ 47"
    using fl0 fl al ga Suc.prems(4) gap by (rule step_error)
  then have se: "\<bar>?q' - (99/100 * ?q + 1/10)\<bar> \<le> K / 100" by (simp add: K)
  have q'9: "9/100 \<le> ?q'" using se q_pos K1 by linarith
  have "\<bar>?q' - (10 - 99/10 * P)\<bar> \<le> K" using se inv by linarith
  then have b': "\<bar>?q' - (10 - 10 * (99/100) ^ (Suc m))\<bar> \<le> K" by (simp add: P_def)
  have r1: "?qt1 ! i = ?row[j := ?q']" using il by simp
  have 1: "np_index (length ?qt1) s = Some i" using Suc.prems(1) by simp
  have 2: "np_index (length (?qt1 ! i)) a = Some j" using Suc.prems(2) r1 by simp
  have 3: "\<forall>k<length (?qt1 ! i). k \<noteq> j \<longrightarrow> ?qt1 ! i ! k \<le> 0"
    using Suc.prems(3) r1 by simp
  have 4: "?qt1 ! i ! j = 0 \<or> 9/100 \<le> ?qt1 ! i ! j" using q'9 r1 jl by simp
  have 5: "\<bar>?qt1 ! i ! j - (10 - 10 * (99/100) ^ (Suc m))\<bar> \<le> K"
    using b' r1 jl by simp
  have 6: "Suc m + n \<le> 1000" using Suc.prems(6) by simp
  from Suc.IH [OF 1 2 3 4 5 6] obtain qt' where
    "replay p h n ?qt1 s a 1 s = Inr qt'"
    "\<bar>qt' ! i ! j - (10 - 10 * (99/100) ^ (Suc m + n))\<bar> \<le> K"
    by blast
  with u show ?case by (intro exI [of _ qt']) simp
qed

subsection \<open>The selector on a row of zeros\<close>

text \<open>
  On a non-empty row whose entries are all zero, the exploitation branch returns the action
  drawn by \<^verbatim>\<open>env.action_space.sample()\<close>.
\<close>

lemma greedy_all_zero_samples:
  assumes "rand_uniform env w = (u, w1)"
    and "\<not> u < epsilon h"
    and "row_at qt s = Inr row"
    and "row \<noteq> []"
    and "\<forall>x\<in>set row. x = 0"
  shows "greedy_epsilon env h qt s w = (Inr (fst (env_sample env w1)), snd (env_sample env w1))"
proof -
  have c: "cell_at qt s 0 = Inr 0"
    using cell_at_0_row [OF assms(3,4)] assms(4,5) by (cases row) auto
  have a: "\<not> np_all row"
    using assms(4,5) by (cases row) (auto simp: np_all_def)
  show ?thesis
    using assms(1,2,3) c a
    by (simp add: greedy_epsilon_def bool_as_float_def split: prod.splits)
qed

lemma greedy_all_zero_example:
  "rand_uniform (scripted 1 2) (w_pick (1/2) 1) = (1/2, \<lparr>s_steps = [], s_draws = [], s_samples = [1]\<rparr>) \<and>
   \<not> 1/2 < epsilon h_half \<and>
   row_at [[0, 0]] 0 = Inr [0, 0] \<and> [0, 0::real] \<noteq> [] \<and>
   greedy_epsilon (scripted 1 2) h_half [[0, 0]] 0 (w_pick (1/2) 1)
     = (Inr 1, \<lparr>s_steps = [], s_draws = [], s_samples = []\<rparr>)"
proof -
  have 1: "rand_uniform (scripted 1 2) (w_pick (1/2) 1)
             = (1/2, \<lparr>s_steps = [], s_draws = [], s_samples = [1]\<rparr>)"
    by (simp add: scripted_def w_pick_def)
  have 2: "\<not> 1/2 < epsilon h_half" by (simp add: h_half_def)
  have 3: "row_at [[0, 0]] 0 = Inr [0, 0]" by (simp add: row_at_def np_index_def)
  have 4: "[0, 0::real] \<noteq> []" by simp
  have 5: "\<forall>x\<in>set [0, 0::real]. x = 0" by simp
  have 6: "env_sample (scripted 1 2) \<lparr>s_steps = [], s_draws = [], s_samples = [1]\<rparr>
             = (1, \<lparr>s_steps = [], s_draws = [], s_samples = []\<rparr>)"
    by (simp add: scripted_def)
  from greedy_all_zero_samples [OF 1 2 3 4 5] 6
  have "greedy_epsilon (scripted 1 2) h_half [[0, 0]] 0 (w_pick (1/2) 1)
     = (Inr 1, \<lparr>s_steps = [], s_draws = [], s_samples = []\<rparr>)"
    by simp
  with 1 2 3 4 show ?thesis by blast
qed

subsection \<open>The loops and the traces of the episodes\<close>

lemma eval_trace_step:
  assumes "eval_iter env p st = (None, st1)"
  shows "\<exists>r te tr. l_done st1 = (te \<or> tr) \<and> l_reward st1 = fadd p (l_reward st) r \<and>
           l_steps st1 = Suc (l_steps st) \<and> l_qtable st1 = l_qtable st \<and>
           (\<forall>rs. eval_trace env (l_qtable st) (l_state st) (l_world st) (r # rs) =
              (if te \<or> tr then (if rs = [] then Some (l_state st1, l_world st1) else None)
               else eval_trace env (l_qtable st) (l_state st1) (l_world st1) rs))"
  using assms
proof (cases rule: eval_iter_cases)
  case (stepped row a ns r te tr w')
  then show ?thesis
    by (intro exI [of _ r] exI [of _ te] exI [of _ tr]) simp
qed simp_all

lemma eval_loop_trace:
  assumes "eval_loop env p st = Some y"
  shows "fst y = None \<longrightarrow>
           (l_done st \<and> snd y = st) \<or>
           (\<not> l_done st \<and>
            (\<exists>rs. eval_trace env (l_qtable st) (l_state st) (l_world st) rs
                     = Some (l_state (snd y), l_world (snd y)) \<and>
                   l_reward (snd y) = foldl (fadd p) (l_reward st) rs \<and>
                   l_steps (snd y) = l_steps st + length rs \<and>
                   l_done (snd y) \<and> l_qtable (snd y) = l_qtable st))"
proof (rule eval_loop.raw_induct
    [where P = "\<lambda>env p st y. fst y = None \<longrightarrow>
           (l_done st \<and> snd y = st) \<or>
           (\<not> l_done st \<and>
            (\<exists>rs. eval_trace env (l_qtable st) (l_state st) (l_world st) rs
                     = Some (l_state (snd y), l_world (snd y)) \<and>
                   l_reward (snd y) = foldl (fadd p) (l_reward st) rs \<and>
                   l_steps (snd y) = l_steps st + length rs \<and>
                   l_done (snd y) \<and> l_qtable (snd y) = l_qtable st))", OF _ assms], goal_cases)
  case (1 loop env p st y)
  show ?case
  proof (cases "l_done st")
    case True
    with 1(2) have "y = (None, st)" by simp
    with True show ?thesis by simp
  next
    case False
    obtain out st1 where it: "eval_iter env p st = (out, st1)" by (cases "eval_iter env p st")
    show ?thesis
    proof (cases out)
      case (Some e)
      with 1(2) False it have "y = (Some e, st1)" by simp
      then show ?thesis by simp
    next
      case None
      with 1(2) False it have l: "loop env p st1 = Some y" by simp
      from it None have it': "eval_iter env p st = (None, st1)" by simp
      from eval_trace_step [OF it'] obtain r te tr where
        d: "l_done st1 = (te \<or> tr)" and rw: "l_reward st1 = fadd p (l_reward st) r"
        and sp: "l_steps st1 = Suc (l_steps st)" and q: "l_qtable st1 = l_qtable st"
        and tr: "\<And>rs. eval_trace env (l_qtable st) (l_state st) (l_world st) (r # rs) =
              (if te \<or> tr then (if rs = [] then Some (l_state st1, l_world st1) else None)
               else eval_trace env (l_qtable st) (l_state st1) (l_world st1) rs)"
        by blast
      show ?thesis
      proof (intro impI)
        assume n: "fst y = None"
        from 1(1) [OF l] n have ih:
          "(l_done st1 \<and> snd y = st1) \<or>
           (\<not> l_done st1 \<and>
            (\<exists>rs. eval_trace env (l_qtable st1) (l_state st1) (l_world st1) rs
                     = Some (l_state (snd y), l_world (snd y)) \<and>
                   l_reward (snd y) = foldl (fadd p) (l_reward st1) rs \<and>
                   l_steps (snd y) = l_steps st1 + length rs \<and>
                   l_done (snd y) \<and> l_qtable (snd y) = l_qtable st1))"
          by simp
        then show "(l_done st \<and> snd y = st) \<or>
           (\<not> l_done st \<and>
            (\<exists>rs. eval_trace env (l_qtable st) (l_state st) (l_world st) rs
                     = Some (l_state (snd y), l_world (snd y)) \<and>
                   l_reward (snd y) = foldl (fadd p) (l_reward st) rs \<and>
                   l_steps (snd y) = l_steps st + length rs \<and>
                   l_done (snd y) \<and> l_qtable (snd y) = l_qtable st))"
        proof
          assume a: "l_done st1 \<and> snd y = st1"
          with d have "te \<or> tr" by simp
          with tr [of "[]"] have "eval_trace env (l_qtable st) (l_state st) (l_world st) [r]
              = Some (l_state st1, l_world st1)" by simp
          with a rw sp q False show ?thesis
            by (intro disjI2 conjI exI [of _ "[r]"]) simp_all
        next
          assume b: "\<not> l_done st1 \<and>
            (\<exists>rs. eval_trace env (l_qtable st1) (l_state st1) (l_world st1) rs
                     = Some (l_state (snd y), l_world (snd y)) \<and>
                   l_reward (snd y) = foldl (fadd p) (l_reward st1) rs \<and>
                   l_steps (snd y) = l_steps st1 + length rs \<and>
                   l_done (snd y) \<and> l_qtable (snd y) = l_qtable st1)"
          then obtain rs where rs:
            "eval_trace env (l_qtable st1) (l_state st1) (l_world st1) rs
                     = Some (l_state (snd y), l_world (snd y))"
            "l_reward (snd y) = foldl (fadd p) (l_reward st1) rs"
            "l_steps (snd y) = l_steps st1 + length rs"
            "l_done (snd y)" "l_qtable (snd y) = l_qtable st1"
            by blast
          from b d have nd: "\<not> (te \<or> tr)" by simp
          with tr [of rs] rs(1) q have
            "eval_trace env (l_qtable st) (l_state st) (l_world st) (r # rs)
               = Some (l_state (snd y), l_world (snd y))" by simp
          with rs rw sp q False show ?thesis
            by (intro disjI2 conjI exI [of _ "r # rs"]) simp_all
        qed
      qed
    qed
  qed
qed

lemma eval_trace_loop:
  "eval_trace env (l_qtable st) (l_state st) (l_world st) rs = Some (s', w') \<Longrightarrow> \<not> l_done st \<Longrightarrow>
   eval_loop env p st =
     Some (None, st\<lparr>l_state := s', l_reward := foldl (fadd p) (l_reward st) rs,
                      l_steps := l_steps st + length rs, l_done := True, l_world := w'\<rparr>)"
proof (induction rs arbitrary: st)
  case Nil
  then show ?case by simp
next
  case (Cons r rs)
  from Cons.prems(1) obtain row where row: "row_at (l_qtable st) (l_state st) = Inr row"
    by (cases "row_at (l_qtable st) (l_state st)") auto
  from Cons.prems(1) row obtain a where a: "np_argmax row = Inr a"
    by (cases "np_argmax row") auto
  obtain ns r' te tr w1 where s: "env_step env a (l_world st) = ((ns, r', te, tr), w1)"
    by (cases "env_step env a (l_world st)") auto
  from Cons.prems(1) row a s have r': "r' = r"
    by (auto split: if_splits)
  let ?st1 = "st\<lparr>l_state := ns, l_reward := fadd p (l_reward st) r, l_steps := l_steps st + 1,
                   l_done := (te \<or> tr), l_world := w1\<rparr>"
  have it: "eval_iter env p st = (None, ?st1)"
    using row a s r' by (simp add: eval_iter_def)
  have unfold: "eval_loop env p st = eval_loop env p ?st1"
    using Cons.prems(2) it by (subst eval_loop.simps) simp
  show ?case
  proof (cases "te \<or> tr")
    case True
    with Cons.prems(1) row a s r' have e: "rs = []" "s' = ns" "w' = w1"
      by (auto split: if_splits)
    have "eval_loop env p ?st1 = Some (None, ?st1)"
      using True by (subst eval_loop.simps) simp
    with unfold e True show ?thesis by simp
  next
    case False
    with Cons.prems(1) row a s r' have t: "eval_trace env (l_qtable st) ns w1 rs = Some (s', w')"
      by (auto split: if_splits)
    have "eval_loop env p ?st1 =
      Some (None, ?st1\<lparr>l_state := s', l_reward := foldl (fadd p) (l_reward ?st1) rs,
                      l_steps := l_steps ?st1 + length rs, l_done := True, l_world := w'\<rparr>)"
      using t False by (intro Cons.IH) simp_all
    with unfold show ?thesis by simp
  qed
qed

lemma eval_episodes_trials:
  "eval_episodes env p n acc = Some (None, acc') \<Longrightarrow>
     \<exists>rss. eval_trials env (t_qtable acc) (t_world acc) rss = Some (t_world acc') \<and>
       length rss = n \<and>
       t_rewards acc' = t_rewards acc @ map (foldl (fadd p) 0) rss \<and>
       t_steps acc' = t_steps acc @ map length rss \<and>
       t_successes acc' =
         t_successes acc + length (filter (\<lambda>rs. foldl (fadd p) 0 rs = 1) rss) \<and>
       t_qtable acc' = t_qtable acc"
proof (induction n arbitrary: acc)
  case 0
  then show ?case by (intro exI [of _ "[]"]) auto
next
  case (Suc n)
  from Suc.prems show ?case
  proof (cases rule: eval_episodes_step)
    case (raises s0 w0 e st)
    then show ?thesis by simp
  next
    case (continues s0 w0 st)
    let ?st0 = "\<lparr>l_qtable = t_qtable acc, l_state = s0, l_done = False,
                 l_reward = 0, l_steps = 0, l_world = w0\<rparr>"
    from eval_loop_trace [OF continues(2)] obtain rs where
      t: "eval_trace env (t_qtable acc) s0 w0 rs = Some (l_state st, l_world st)"
      and rw: "l_reward st = foldl (fadd p) 0 rs" and sp: "l_steps st = length rs"
      and q: "l_qtable st = t_qtable acc"
      by auto
    from Suc.IH [OF continues(3)] obtain rss where
      ts: "eval_trials env (l_qtable st) (l_world st) rss = Some (t_world acc')"
      and len: "length rss = n"
      and r: "t_rewards acc' = (t_rewards acc @ [l_reward st]) @ map (foldl (fadd p) 0) rss"
      and ss: "t_steps acc' = (t_steps acc @ [l_steps st]) @ map length rss"
      and k: "t_successes acc' =
                (if l_reward st = 1 then t_successes acc + 1 else t_successes acc) +
                length (filter (\<lambda>rs. foldl (fadd p) 0 rs = 1) rss)"
      and q': "t_qtable acc' = l_qtable st"
      by auto
    show ?thesis
      using continues(1) t ts len r ss k q q' rw sp
      by (intro exI [of _ "rs # rss"]) simp
  qed
qed

lemma eval_trials_episodes:
  "eval_trials env (t_qtable acc) (t_world acc) rss = Some w' \<Longrightarrow>
   eval_episodes env p (length rss) acc =
     Some (None, \<lparr>t_qtable = t_qtable acc,
                    t_successes =
                      t_successes acc + length (filter (\<lambda>rs. foldl (fadd p) 0 rs = 1) rss),
                    t_rewards = t_rewards acc @ map (foldl (fadd p) 0) rss,
                    t_steps = t_steps acc @ map length rss,
                    t_world = w'\<rparr>)"
proof (induction rss arbitrary: acc)
  case Nil
  then show ?case by simp
next
  case (Cons rs rss)
  obtain s0 w0 where r: "env_reset env (t_world acc) = (s0, w0)"
    by (cases "env_reset env (t_world acc)")
  from Cons.prems r obtain s1 w1 where
    t: "eval_trace env (t_qtable acc) s0 w0 rs = Some (s1, w1)"
    and ts: "eval_trials env (t_qtable acc) w1 rss = Some w'"
    by (cases "eval_trace env (t_qtable acc) s0 w0 rs") auto
  let ?st0 = "\<lparr>l_qtable = t_qtable acc, l_state = s0, l_done = False,
                 l_reward = 0, l_steps = 0, l_world = w0\<rparr>"
  have l: "eval_loop env p ?st0 =
     Some (None, ?st0\<lparr>l_state := s1, l_reward := foldl (fadd p) (l_reward ?st0) rs,
                      l_steps := l_steps ?st0 + length rs, l_done := True, l_world := w1\<rparr>)"
    using t by (intro eval_trace_loop) simp_all
  let ?acc1 = "\<lparr>t_qtable = t_qtable acc,
                  t_successes = (if foldl (fadd p) 0 rs = 1 then t_successes acc + 1
                                 else t_successes acc),
                  t_rewards = t_rewards acc @ [foldl (fadd p) 0 rs],
                  t_steps = t_steps acc @ [length rs],
                  t_world = w1\<rparr>"
  have step: "eval_episodes env p (length (rs # rss)) acc = eval_episodes env p (length rss) ?acc1"
    using r l by simp
  have "eval_episodes env p (length rss) ?acc1 =
     Some (None, \<lparr>t_qtable = t_qtable ?acc1,
                    t_successes =
                      t_successes ?acc1 + length (filter (\<lambda>rs. foldl (fadd p) 0 rs = 1) rss),
                    t_rewards = t_rewards ?acc1 @ map (foldl (fadd p) 0) rss,
                    t_steps = t_steps ?acc1 @ map length rss,
                    t_world = w'\<rparr>)"
    using ts by (intro Cons.IH) simp
  with step show ?case by simp
qed

lemma train_trace_step:
  assumes "train_iter env p h st = (None, st1)"
  shows "\<exists>r te tr. l_done st1 = (te \<or> tr) \<and> l_reward st1 = fadd p (l_reward st) r \<and>
           l_steps st1 = Suc (l_steps st) \<and>
           (\<forall>rs. train_trace env p h (l_qtable st) (l_state st) (l_world st) (r # rs) =
              (if te \<or> tr
               then (if rs = [] then Some (l_qtable st1, l_state st1, l_world st1) else None)
               else train_trace env p h (l_qtable st1) (l_state st1) (l_world st1) rs))"
  using assms
proof (cases rule: train_iter_cases)
  case (stepped a w1 ns r te tr w2 qt')
  then show ?thesis
    by (intro exI [of _ r] exI [of _ te] exI [of _ tr]) simp
qed simp_all

lemma train_loop_trace:
  assumes "train_loop env p h st = Some y"
  shows "fst y = None \<longrightarrow>
           (l_done st \<and> snd y = st) \<or>
           (\<not> l_done st \<and>
            (\<exists>rs. train_trace env p h (l_qtable st) (l_state st) (l_world st) rs
                     = Some (l_qtable (snd y), l_state (snd y), l_world (snd y)) \<and>
                   l_reward (snd y) = foldl (fadd p) (l_reward st) rs \<and>
                   l_steps (snd y) = l_steps st + length rs \<and>
                   l_done (snd y)))"
proof (rule train_loop.raw_induct
    [where P = "\<lambda>env p h st y. fst y = None \<longrightarrow>
           (l_done st \<and> snd y = st) \<or>
           (\<not> l_done st \<and>
            (\<exists>rs. train_trace env p h (l_qtable st) (l_state st) (l_world st) rs
                     = Some (l_qtable (snd y), l_state (snd y), l_world (snd y)) \<and>
                   l_reward (snd y) = foldl (fadd p) (l_reward st) rs \<and>
                   l_steps (snd y) = l_steps st + length rs \<and>
                   l_done (snd y)))", OF _ assms], goal_cases)
  case (1 loop env p h st y)
  show ?case
  proof (cases "l_done st")
    case True
    with 1(2) have "y = (None, st)" by simp
    with True show ?thesis by simp
  next
    case False
    obtain out st1 where it: "train_iter env p h st = (out, st1)"
      by (cases "train_iter env p h st")
    show ?thesis
    proof (cases out)
      case (Some e)
      with 1(2) False it have "y = (Some e, st1)" by simp
      then show ?thesis by simp
    next
      case None
      with 1(2) False it have l: "loop env p h st1 = Some y" by simp
      from it None have it': "train_iter env p h st = (None, st1)" by simp
      from train_trace_step [OF it'] obtain r te tr where
        d: "l_done st1 = (te \<or> tr)" and rw: "l_reward st1 = fadd p (l_reward st) r"
        and sp: "l_steps st1 = Suc (l_steps st)"
        and tr: "\<And>rs. train_trace env p h (l_qtable st) (l_state st) (l_world st) (r # rs) =
              (if te \<or> tr
               then (if rs = [] then Some (l_qtable st1, l_state st1, l_world st1) else None)
               else train_trace env p h (l_qtable st1) (l_state st1) (l_world st1) rs)"
        by blast
      show ?thesis
      proof (intro impI)
        assume n: "fst y = None"
        from 1(1) [OF l] n have ih:
          "(l_done st1 \<and> snd y = st1) \<or>
           (\<not> l_done st1 \<and>
            (\<exists>rs. train_trace env p h (l_qtable st1) (l_state st1) (l_world st1) rs
                     = Some (l_qtable (snd y), l_state (snd y), l_world (snd y)) \<and>
                   l_reward (snd y) = foldl (fadd p) (l_reward st1) rs \<and>
                   l_steps (snd y) = l_steps st1 + length rs \<and>
                   l_done (snd y)))"
          by simp
        then show "(l_done st \<and> snd y = st) \<or>
           (\<not> l_done st \<and>
            (\<exists>rs. train_trace env p h (l_qtable st) (l_state st) (l_world st) rs
                     = Some (l_qtable (snd y), l_state (snd y), l_world (snd y)) \<and>
                   l_reward (snd y) = foldl (fadd p) (l_reward st) rs \<and>
                   l_steps (snd y) = l_steps st + length rs \<and>
                   l_done (snd y)))"
        proof
          assume a: "l_done st1 \<and> snd y = st1"
          with d have "te \<or> tr" by simp
          with tr [of "[]"] have "train_trace env p h (l_qtable st) (l_state st) (l_world st) [r]
              = Some (l_qtable st1, l_state st1, l_world st1)" by simp
          with a rw sp False show ?thesis
            by (intro disjI2 conjI exI [of _ "[r]"]) simp_all
        next
          assume b: "\<not> l_done st1 \<and>
            (\<exists>rs. train_trace env p h (l_qtable st1) (l_state st1) (l_world st1) rs
                     = Some (l_qtable (snd y), l_state (snd y), l_world (snd y)) \<and>
                   l_reward (snd y) = foldl (fadd p) (l_reward st1) rs \<and>
                   l_steps (snd y) = l_steps st1 + length rs \<and>
                   l_done (snd y))"
          then obtain rs where rs:
            "train_trace env p h (l_qtable st1) (l_state st1) (l_world st1) rs
                     = Some (l_qtable (snd y), l_state (snd y), l_world (snd y))"
            "l_reward (snd y) = foldl (fadd p) (l_reward st1) rs"
            "l_steps (snd y) = l_steps st1 + length rs"
            "l_done (snd y)"
            by blast
          from b d have nd: "\<not> (te \<or> tr)" by simp
          with tr [of rs] rs(1) have
            "train_trace env p h (l_qtable st) (l_state st) (l_world st) (r # rs)
               = Some (l_qtable (snd y), l_state (snd y), l_world (snd y))" by simp
          with rs rw sp False show ?thesis
            by (intro disjI2 conjI exI [of _ "r # rs"]) simp_all
        qed
      qed
    qed
  qed
qed

lemma train_trace_loop:
  "train_trace env p h (l_qtable st) (l_state st) (l_world st) rs = Some (qt', s', w') \<Longrightarrow>
   \<not> l_done st \<Longrightarrow>
   train_loop env p h st =
     Some (None, \<lparr>l_qtable = qt', l_state = s', l_done = True,
                    l_reward = foldl (fadd p) (l_reward st) rs,
                    l_steps = l_steps st + length rs, l_world = w'\<rparr>)"
proof (induction rs arbitrary: st)
  case Nil
  then show ?case by simp
next
  case (Cons r rs)
  obtain g w1 where g: "greedy_epsilon env h (l_qtable st) (l_state st) (l_world st) = (g, w1)"
    by (cases "greedy_epsilon env h (l_qtable st) (l_state st) (l_world st)")
  from Cons.prems(1) g obtain a where a: "g = Inr a" by (cases g) auto
  obtain ns r' te tr w2 where s: "env_step env a w1 = ((ns, r', te, tr), w2)"
    by (cases "env_step env a w1") auto
  from Cons.prems(1) g a s obtain qt1 where
    u: "q_update p h (l_qtable st) (l_state st) a r' ns = Inr qt1"
    by (cases "q_update p h (l_qtable st) (l_state st) a r' ns") auto
  from Cons.prems(1) g a s u have r': "r' = r"
    by (auto split: if_splits)
  let ?st1 = "\<lparr>l_qtable = qt1, l_state = ns, l_done = (te \<or> tr),
               l_reward = fadd p (l_reward st) r, l_steps = l_steps st + 1, l_world = w2\<rparr>"
  have it: "train_iter env p h st = (None, ?st1)"
    using g a s u r' by (simp add: train_iter_def)
  have unfold: "train_loop env p h st = train_loop env p h ?st1"
    using Cons.prems(2) it by (subst train_loop.simps) simp
  show ?case
  proof (cases "te \<or> tr")
    case True
    with Cons.prems(1) g a s u r' have e: "rs = []" "qt' = qt1" "s' = ns" "w' = w2"
      by (auto split: if_splits)
    have "train_loop env p h ?st1 = Some (None, ?st1)"
      using True by (subst train_loop.simps) simp
    with unfold e True show ?thesis by simp
  next
    case False
    with Cons.prems(1) g a s u r' have
      t: "train_trace env p h qt1 ns w2 rs = Some (qt', s', w')"
      by (auto split: if_splits)
    have "train_loop env p h ?st1 =
      Some (None, \<lparr>l_qtable = qt', l_state = s', l_done = True,
                    l_reward = foldl (fadd p) (l_reward ?st1) rs,
                    l_steps = l_steps ?st1 + length rs, l_world = w'\<rparr>)"
      using t False by (intro Cons.IH) simp_all
    with unfold show ?thesis by simp
  qed
qed

lemma train_episodes_trials:
  "train_episodes env p h n acc = Some (None, acc') \<Longrightarrow>
     \<exists>rss. train_trials env p h (r_qtable acc) (r_world acc) rss
             = Some (r_qtable acc', r_world acc') \<and>
       length rss = n \<and>
       r_rewards acc' = r_rewards acc @ map (foldl (fadd p) 0) rss \<and>
       r_steps acc' = r_steps acc @ map length rss"
proof (induction n arbitrary: acc)
  case 0
  then show ?case by (intro exI [of _ "[]"]) auto
next
  case (Suc n)
  from Suc.prems show ?case
  proof (cases rule: train_episodes_step)
    case (raises s0 w0 e st)
    then show ?thesis by simp
  next
    case (continues s0 w0 st)
    from train_loop_trace [OF continues(2)] obtain rs where
      t: "train_trace env p h (r_qtable acc) s0 w0 rs = Some (l_qtable st, l_state st, l_world st)"
      and rw: "l_reward st = foldl (fadd p) 0 rs" and sp: "l_steps st = length rs"
      by auto
    from Suc.IH [OF continues(3)] obtain rss where
      ts: "train_trials env p h (l_qtable st) (l_world st) rss = Some (r_qtable acc', r_world acc')"
      and len: "length rss = n"
      and r: "r_rewards acc' = (r_rewards acc @ [l_reward st]) @ map (foldl (fadd p) 0) rss"
      and ss: "r_steps acc' = (r_steps acc @ [l_steps st]) @ map length rss"
      by auto
    show ?thesis
      using continues(1) t ts len r ss rw sp
      by (intro exI [of _ "rs # rss"]) simp
  qed
qed

lemma train_trials_episodes:
  "train_trials env p h (r_qtable acc) (r_world acc) rss = Some (qt', w') \<Longrightarrow>
   train_episodes env p h (length rss) acc =
     Some (None, \<lparr>r_qtable = qt',
                    r_rewards = r_rewards acc @ map (foldl (fadd p) 0) rss,
                    r_steps = r_steps acc @ map length rss,
                    r_world = w'\<rparr>)"
proof (induction rss arbitrary: acc)
  case Nil
  then show ?case by simp
next
  case (Cons rs rss)
  obtain s0 w0 where r: "env_reset env (r_world acc) = (s0, w0)"
    by (cases "env_reset env (r_world acc)")
  from Cons.prems r obtain qt1 s1 w1 where
    t: "train_trace env p h (r_qtable acc) s0 w0 rs = Some (qt1, s1, w1)"
    and ts: "train_trials env p h qt1 w1 rss = Some (qt', w')"
    by (cases "train_trace env p h (r_qtable acc) s0 w0 rs") auto
  let ?st0 = "\<lparr>l_qtable = r_qtable acc, l_state = s0, l_done = False,
                 l_reward = 0, l_steps = 0, l_world = w0\<rparr>"
  have l: "train_loop env p h ?st0 =
     Some (None, \<lparr>l_qtable = qt1, l_state = s1, l_done = True,
                    l_reward = foldl (fadd p) (l_reward ?st0) rs,
                    l_steps = l_steps ?st0 + length rs, l_world = w1\<rparr>)"
    using t by (intro train_trace_loop) simp_all
  let ?acc1 = "\<lparr>r_qtable = qt1,
                  r_rewards = r_rewards acc @ [foldl (fadd p) 0 rs],
                  r_steps = r_steps acc @ [length rs],
                  r_world = w1\<rparr>"
  have step: "train_episodes env p h (length (rs # rss)) acc
                = train_episodes env p h (length rss) ?acc1"
    using r l by simp
  have "train_episodes env p h (length rss) ?acc1 =
     Some (None, \<lparr>r_qtable = qt',
                    r_rewards = r_rewards ?acc1 @ map (foldl (fadd p) 0) rss,
                    r_steps = r_steps ?acc1 @ map length rss,
                    r_world = w'\<rparr>)"
    using ts by (intro Cons.IH) simp
  with step show ?case by simp
qed

lemma train_trials_nonempty:
  "train_trials env p h qt w rss = Some x \<Longrightarrow> list_all (\<lambda>rs. rs \<noteq> []) rss"
proof (induction rss arbitrary: qt w)
  case Nil
  then show ?case by simp
next
  case (Cons rs rss)
  obtain s0 w0 where r: "env_reset env w = (s0, w0)" by (cases "env_reset env w")
  from Cons.prems r obtain qt1 s1 w1 where
    t: "train_trace env p h qt s0 w0 rs = Some (qt1, s1, w1)"
    and ts: "train_trials env p h qt1 w1 rss = Some x"
    by (cases "train_trace env p h qt s0 w0 rs") auto
  from t have "rs \<noteq> []" by (cases rs) auto
  with Cons.IH [OF ts] show ?case by simp
qed

lemma eval_trials_nonempty:
  "eval_trials env qt w rss = Some x \<Longrightarrow> list_all (\<lambda>rs. rs \<noteq> []) rss"
proof (induction rss arbitrary: w)
  case Nil
  then show ?case by simp
next
  case (Cons rs rss)
  obtain s0 w0 where r: "env_reset env w = (s0, w0)" by (cases "env_reset env w")
  from Cons.prems r obtain s1 w1 where
    t: "eval_trace env qt s0 w0 rs = Some (s1, w1)"
    and ts: "eval_trials env qt w1 rss = Some x"
    by (cases "eval_trace env qt s0 w0 rs") auto
  from t have "rs \<noteq> []" by (cases rs) auto
  with Cons.IH [OF ts] show ?case by simp
qed

lemmas two_defs =
  w_two_def ep_two_def ep_two_trained_def ep_two_evaluated_def run_two_def run_two_done_def
  trials_two_done_def w_empty_def

lemma ep_two_train_loop:
  "train_loop (scripted 2 2) exact h_half ep_two = Some (None, ep_two_trained)"
  by (simp add: train_loop.simps two_defs model_defs)

lemma ep_two_eval_loop:
  "eval_loop (scripted 2 2) exact ep_two = Some (None, ep_two_evaluated)"
  by (simp add: eval_loop.simps two_defs model_defs)

lemma ep_two_train_trace:
  "train_trace (scripted 2 2) exact h_half (l_qtable ep_two) (l_state ep_two) (l_world ep_two) [0, 1]
     = Some ([[0, 0], [1/2, 0]], 0, w_empty)"
  by (simp add: two_defs model_defs)

lemma ep_two_eval_trace:
  "eval_trace (scripted 2 2) (l_qtable ep_two) (l_state ep_two) (l_world ep_two) [0, 1]
     = Some (0, w_empty)"
  by (simp add: two_defs model_defs)

lemma run_two_episodes:
  "train_episodes (scripted 2 2) exact h_half (Suc 0) run_two = Some (None, run_two_done)"
  by (simp add: train_loop.simps two_defs model_defs)

lemma trials_two_episodes:
  "eval_episodes (scripted 2 2) exact (Suc 0) (trials_start [[0, 0], [0, 0]] w_two)
     = Some (None, trials_two_done)"
  by (simp add: eval_loop.simps two_defs model_defs)

lemma w_halves_episodes:
  "eval_episodes (scripted 2 2) exact (Suc 0) (trials_start [[0, 0], [0, 0]] w_halves)
     = Some (None, trials_two_done)"
  by (simp add: eval_loop.simps w_halves_def two_defs model_defs)

lemma w_mixed_episodes:
  "eval_episodes (scripted 2 2) exact 2 (trials_start [[0, 0], [0, 0]] w_mixed)
     = Some (None, trials_mixed_done)"
  by (simp add: numeral_2_eq_2 eval_loop.simps w_mixed_def trials_mixed_done_def w_empty_def
      model_defs)

lemma w_mixed_evaluation:
  "evaluation (scripted 2 2) exact [[0, 0], [0, 0]] 2 w_mixed
     = Some (Inr report_mixed, [[0, 0], [0, 0]], w_empty)"
  using w_mixed_episodes
  by (simp add: evaluation_def trials_mixed_done_def report_mixed_def np_max_def fdiv_def exact_def)

lemma w_mixed_trials:
  "eval_trials (scripted 2 2) [[0, 0], [0, 0]] w_mixed [[1/2, 1/2], [1/2]] = Some w_empty"
  by (simp add: w_mixed_def w_empty_def model_defs)

section \<open>The claims\<close>

subsection \<open>C1: the value written by the update rule\<close>

text \<open>
  C1. One application of the update rule, on indices the table accepts and a non-empty row of
  the next state, returns a table whose entry at \<open>(s, a)\<close> is
  \<open>old + alpha * ((r + gamma * m) - old)\<close>, each operation rounded by \<open>fl\<close>, where \<open>m\<close> is
  the maximum of the next state's row (the entry at the argmax, from the table before the
  write). With exact arithmetic this is the real-number expression. With \<open>gamma = 0\<close> and
  \<open>r = 1\<close> (and \<open>0\<close>, \<open>1\<close> representable) it is \<open>old + alpha * (1 - old)\<close>, and it is
  \<open>alpha\<close> itself when the old entry is 0 and \<open>alpha\<close> is representable; no bound on
  \<open>alpha\<close> is needed.
\<close>

theorem update_rule_value:
  assumes "np_index (length qt) s = Some i"
    and "np_index (length (qt ! i)) a = Some j"
    and "row_at qt s' = Inr row"
    and "row \<noteq> []"
  shows "\<exists>qt'. q_update p h qt s a r s' = Inr qt' \<and>
           qt' ! i ! j =
             fadd p (qt ! i ! j)
               (fmul p (alpha h) (fsub p (fadd p r (fmul p (gamma h) (Max (set row)))) (qt ! i ! j))) \<and>
           (fl p = (\<lambda>x. x) \<longrightarrow>
              qt' ! i ! j = qt ! i ! j + alpha h * ((r + gamma h * Max (set row)) - qt ! i ! j)) \<and>
           (gamma h = 0 \<and> r = 1 \<and> fl p 0 = 0 \<and> fl p 1 = 1 \<longrightarrow>
              qt' ! i ! j = fadd p (qt ! i ! j) (fmul p (alpha h) (fsub p 1 (qt ! i ! j)))) \<and>
           (gamma h = 0 \<and> r = 1 \<and> fl p 0 = 0 \<and> fl p 1 = 1 \<and> fl p (alpha h) = alpha h \<and>
            qt ! i ! j = 0 \<longrightarrow> qt' ! i ! j = alpha h)"
proof -
  let ?qt' = "qt[i := (qt ! i)[j := td_value p h (qt ! i ! j) r (Max (set row))]]"
  have u: "q_update p h qt s a r s' = Inr ?qt'"
    using assms by (rule q_update_result)
  have i: "i < length qt" and j: "j < length (qt ! i)"
    using assms(1,2) by (auto dest: np_index_bound)
  have v: "?qt' ! i ! j = td_value p h (qt ! i ! j) r (Max (set row))"
    using i j by simp
  show ?thesis
  proof (intro exI [of _ ?qt'] conjI impI)
    show "q_update p h qt s a r s' = Inr ?qt'" by (rule u)
  next
    show "?qt' ! i ! j =
             fadd p (qt ! i ! j)
               (fmul p (alpha h) (fsub p (fadd p r (fmul p (gamma h) (Max (set row)))) (qt ! i ! j)))"
      unfolding v by (simp add: td_value_def)
  next
    assume "fl p = (\<lambda>x. x)"
    then show "?qt' ! i ! j = qt ! i ! j + alpha h * ((r + gamma h * Max (set row)) - qt ! i ! j)"
      unfolding v by (simp add: td_value_def fadd_def fmul_def fsub_def)
  next
    assume "gamma h = 0 \<and> r = 1 \<and> fl p 0 = 0 \<and> fl p 1 = 1"
    then show "?qt' ! i ! j = fadd p (qt ! i ! j) (fmul p (alpha h) (fsub p 1 (qt ! i ! j)))"
      unfolding v by (simp add: td_value_def fadd_def fmul_def)
  next
    assume "gamma h = 0 \<and> r = 1 \<and> fl p 0 = 0 \<and> fl p 1 = 1 \<and> fl p (alpha h) = alpha h \<and>
            qt ! i ! j = 0"
    then show "?qt' ! i ! j = alpha h"
      unfolding v by (simp add: td_value_def fadd_def fmul_def fsub_def)
  qed
qed

theorem update_rule_value_witness:
  "np_index (length [[0, 0], [0, 0::real]]) 0 = Some 0 \<and>
   np_index (length ([[0, 0], [0, 0::real]] ! 0)) 1 = Some 1 \<and>
   row_at [[0, 0], [0, 0]] 1 = Inr [0, 0] \<and>
   gamma h_half = 0 \<and> fl exact 0 = 0 \<and> fl exact 1 = 1 \<and> fl exact (alpha h_half) = alpha h_half \<and>
   (\<exists>qt'. q_update exact h_half [[0, 0], [0, 0]] 0 1 1 1 = Inr qt' \<and> qt' ! 0 ! 1 = alpha h_half) \<and>
   alpha h_half = 1/2"
proof -
  have 1: "np_index (length [[0, 0], [0, 0::real]]) 0 = Some 0"
    by (simp add: np_index_def)
  have 2: "np_index (length ([[0, 0], [0, 0::real]] ! 0)) 1 = Some 1"
    by (simp add: np_index_def)
  have 3: "row_at [[0, 0], [0, 0]] 1 = Inr [0, 0]"
    by (simp add: row_at_def np_index_def)
  have 4: "[0, 0::real] \<noteq> []" by simp
  have 5: "gamma h_half = 0 \<and> fl exact 0 = 0 \<and> fl exact 1 = 1 \<and> fl exact (alpha h_half) = alpha h_half"
    by (simp add: h_half_def exact_def)
  have 6: "alpha h_half = 1/2" by (simp add: h_half_def)
  from update_rule_value [OF 1 2 3 4, of exact h_half 1] 5
  have "\<exists>qt'. q_update exact h_half [[0, 0], [0, 0]] 0 1 1 1 = Inr qt' \<and> qt' ! 0 ! 1 = alpha h_half"
    by auto
  with 1 2 3 5 6 show ?thesis by blast
qed

subsection \<open>C2: the selector on a row with a unique maximum\<close>

text \<open>
  C2. The exploitation branch takes the argmax only when the boolean \<^verbatim>\<open>np.all(row)\<close>
  differs, as a number, from the row's first entry. On the row \<open>[0, 5, 3]\<close> (strict unique
  maximum at index 1, first entry 0) and on \<open>[1, 2, 3]\<close> (maximum at index 2, every entry
  non-zero, first entry 1) the test succeeds, and with \<open>epsilon = 0\<close> the selector returns
  the sampler's action, here 2 and 0, not the maximum's index.
\<close>

theorem greedy_unique_max_sampled:
  "epsilon h_half = 0 \<and> np_argmax [0, 5, 3] = Inr 1 \<and>
   fst (greedy_epsilon (scripted 1 3) h_half [[0, 5, 3]] 0 (w_pick (1/2) 2)) = Inr 2 \<and>
   np_argmax [1, 2, 3] = Inr 2 \<and>
   fst (greedy_epsilon (scripted 1 3) h_half [[1, 2, 3]] 0 (w_pick (1/2) 0)) = Inr 0"
  by (simp add: greedy_epsilon_def scripted_def w_pick_def h_half_def row_at_def cell_at_def
      np_index_def np_all_def bool_as_float_def np_argmax_def)

subsection \<open>C3: the selector on a row of equal entries\<close>

text \<open>
  C3. On the all-equal row \<open>[1/2, 1/2]\<close> the exploitation branch returns index 0 and never
  consults the sampler, which would have returned 1: the test of line 150 compares the
  boolean \<^verbatim>\<open>np.all(row)\<close> with the first entry, where the all-equal test compares every
  entry with the first. With the common value \<open>1/2\<close> the boolean is true, \<open>1 \<noteq> 1/2\<close>, and
  the branch falls through to \<^verbatim>\<open>np.argmax\<close>, which returns the first index.
\<close>

theorem greedy_all_equal_not_sampled:
  "rand_uniform (scripted 1 2) (w_pick (1/2) 1) = (1/2, \<lparr>s_steps = [], s_draws = [], s_samples = [1]\<rparr>) \<and>
   \<not> 1/2 < epsilon h_half \<and>
   row_at [[1/2, 1/2]] 0 = Inr [1/2, 1/2] \<and>
   env_sample (scripted 1 2) \<lparr>s_steps = [], s_draws = [], s_samples = [1]\<rparr>
     = (1, \<lparr>s_steps = [], s_draws = [], s_samples = []\<rparr>) \<and>
   greedy_epsilon (scripted 1 2) h_half [[1/2, 1/2]] 0 (w_pick (1/2) 1)
     = (Inr 0, \<lparr>s_steps = [], s_draws = [], s_samples = [1]\<rparr>)"
  by (simp add: greedy_epsilon_def scripted_def w_pick_def h_half_def row_at_def cell_at_def
      np_index_def np_all_def bool_as_float_def np_argmax_def)

subsection \<open>C4: convergence of the replayed update\<close>

text \<open>
  C4. Let the rounding map 0 to 0 and have relative error at most \<open>1 / 2 ^ 53\<close> on the normal
  range of doubles, magnitudes from \<open>1 / 2 ^ 1022\<close> to \<open>2 ^ 1023\<close> (IEEE round-to-nearest
  does; so does exact arithmetic), let \<open>alpha\<close> and \<open>gamma\<close> be the roundings of 0.1 and
  0.9, and \<open>r = 1\<close>. From an entry \<open>(s, a)\<close> that is 0 in a row with no positive entry (so
  that the entry stays the row's maximum), 1000 replays of the self-loop transition
  \<open>(s, a, r, s)\<close> all succeed and leave the entry within \<open>1/1000\<close> of 10.
\<close>

theorem replay_converges:
  assumes fl0: "fl p 0 = 0"
    and fl: "\<forall>x. 1 / 2 ^ 1022 \<le> \<bar>x\<bar> \<and> \<bar>x\<bar> \<le> 2 ^ 1023 \<longrightarrow> \<bar>fl p x - x\<bar> \<le> \<bar>x\<bar> / 2 ^ 53"
    and al: "alpha h = fl p (1/10)" and ga: "gamma h = fl p (9/10)"
    and i: "np_index (length qt) s = Some i" and j: "np_index (length (qt ! i)) a = Some j"
    and zero: "qt ! i ! j = 0" and greedy: "\<forall>k<length (qt ! i). qt ! i ! k \<le> 0"
  shows "\<exists>qt'. replay p h 1000 qt s a 1 s = Inr qt' \<and> \<bar>qt' ! i ! j - 10\<bar> < 1/1000"
proof -
  have 3: "\<forall>k<length (qt ! i). k \<noteq> j \<longrightarrow> qt ! i ! k \<le> 0" using greedy by simp
  have 4: "qt ! i ! j = 0 \<or> 9/100 \<le> qt ! i ! j" using zero by simp
  have 5: "\<bar>qt ! i ! j - (10 - 10 * (99/100) ^ 0)\<bar> \<le> 700 / 2 ^ 47" using zero by simp
  have 6: "0 + 1000 \<le> (1000::nat)" by simp
  from replay_invariant [OF fl0 fl al ga refl i j 3 4 5 6] obtain qt' where
    r: "replay p h 1000 qt s a 1 s = Inr qt'"
    and b: "\<bar>qt' ! i ! j - (10 - 10 * (99/100) ^ 1000)\<bar> \<le> 700 / 2 ^ 47"
    by auto
  have k: "(700 :: real) / 2 ^ 47 \<le> 1 / 1000000" by simp
  define P :: real where "P = (99/100) ^ 1000"
  from b have b': "\<bar>qt' ! i ! j - (10 - 10 * P)\<bar> \<le> 700 / 2 ^ 47" by (simp add: P_def)
  from power_99_1000 have Pu: "P \<le> 44 / 1000000" by (simp add: P_def)
  have P0: "0 \<le> P" by (simp add: P_def)
  from b' Pu P0 k have "\<bar>qt' ! i ! j - 10\<bar> < 1/1000" by linarith
  with r show ?thesis by blast
qed

theorem replay_converges_witness:
  "fl exact 0 = 0 \<and> alpha h_tenth = fl exact (1/10) \<and> gamma h_tenth = fl exact (9/10) \<and>
   np_index (length [[0, 0], [0, 0::real]]) 0 = Some 0 \<and>
   np_index (length ([[0, 0], [0, 0::real]] ! 0)) 1 = Some 1 \<and>
   [[0, 0], [0, 0::real]] ! 0 ! 1 = 0 \<and>
   (\<exists>qt'. replay exact h_tenth 1000 [[0, 0], [0, 0]] 0 1 1 0 = Inr qt' \<and>
      \<bar>qt' ! 0 ! 1 - 10\<bar> < 1/1000)"
proof -
  have fl0: "fl exact 0 = 0" by (simp add: exact_def)
  have fl: "\<forall>x. 1 / 2 ^ 1022 \<le> \<bar>x\<bar> \<and> \<bar>x\<bar> \<le> 2 ^ 1023 \<longrightarrow>
              \<bar>fl exact x - x\<bar> \<le> \<bar>x\<bar> / 2 ^ 53"
    by (simp add: exact_def)
  have al: "alpha h_tenth = fl exact (1/10)" by (simp add: h_tenth_def exact_def)
  have ga: "gamma h_tenth = fl exact (9/10)" by (simp add: h_tenth_def exact_def)
  have i: "np_index (length [[0, 0], [0, 0::real]]) 0 = Some 0" by (simp add: np_index_def)
  have j: "np_index (length ([[0, 0], [0, 0::real]] ! 0)) 1 = Some 1" by (simp add: np_index_def)
  have z: "[[0, 0], [0, 0::real]] ! 0 ! 1 = 0" by simp
  have g: "\<forall>k<length ([[0, 0], [0, 0::real]] ! 0). [[0, 0], [0, 0::real]] ! 0 ! k \<le> 0"
    by (simp add: less_Suc_eq)
  from replay_converges [OF fl0 fl al ga i j z g] fl0 al ga i j z show ?thesis by blast
qed

subsection \<open>C5: what the training loop hands out\<close>

text \<open>
  C5, as stated, fails: two runs of two episodes whose reward sequences (\<open>[1, 0]\<close> and
  \<open>[0, 1]\<close>) and step sequences (\<open>[2, 1]\<close> and \<open>[1, 2]\<close>) differ give the caller the same
  table, the same printed mean and the same printed maximum, and leave the same world: the
  sequences cannot be read off what \<^verbatim>\<open>run_env\<close> hands out.
\<close>

theorem run_env_hides_sequences_counterexample:
  "run_env (scripted 2 2) exact h_two w_a = Some (Inr result_ab, w_empty) \<and>
   run_env (scripted 2 2) exact h_two w_b = Some (Inr result_ab, w_empty) \<and>
   train_episodes (scripted 2 2) exact h_two 2 (run_start (scripted 2 2) w_a) = Some (None, run_a) \<and>
   train_episodes (scripted 2 2) exact h_two 2 (run_start (scripted 2 2) w_b) = Some (None, run_b) \<and>
   r_rewards run_a = [1, 0] \<and> r_rewards run_b = [0, 1] \<and>
   r_steps run_a = [2, 1] \<and> r_steps run_b = [1, 2] \<and>
   r_rewards run_a \<noteq> r_rewards run_b \<and> r_steps run_a \<noteq> r_steps run_b"
  using run_a_result run_b_result run_a_episodes run_b_episodes
  by (simp add: run_a_def run_b_def)

text \<open>
  C5, amended. A run of \<^verbatim>\<open>run_env\<close> that returns has made at least one episode; it
  returns the final table, and of the two per-episode sequences (one entry per episode, in
  order) it hands out only what it prints: their mean reward and their maximal step count.
\<close>

theorem run_env_output:
  assumes "run_env env p h w = Some (Inr res, w')"
  shows "\<exists>acc. train_episodes env p h (num_episodes h) (run_start env w) = Some (None, acc) \<and>
           r_world acc = w' \<and>
           length (r_rewards acc) = num_episodes h \<and> length (r_steps acc) = num_episodes h \<and>
           0 < num_episodes h \<and>
           res = \<lparr>returned_qtable = r_qtable acc,
                  printed_mean_reward = np_mean p (r_rewards acc),
                  printed_max_steps = Max (set (r_steps acc))\<rparr>"
proof -
  let ?n = "num_episodes h"
  from assms obtain out acc where y: "train_episodes env p h ?n (run_start env w) = Some (out, acc)"
    by (cases "train_episodes env p h ?n (run_start env w)") (auto simp: run_env_def run_start_def)
  from assms y have out: "out = None"
    by (cases out) (auto simp: run_env_def run_start_def)
  from assms y out obtain mx where mx: "np_max (r_steps acc) = Inr mx"
    by (cases "np_max (r_steps acc)") (auto simp: run_env_def run_start_def)
  from assms y out mx have res: "res = \<lparr>returned_qtable = r_qtable acc,
                  printed_mean_reward = np_mean p (r_rewards acc),
                  printed_max_steps = mx\<rparr>" and w': "r_world acc = w'"
    by (auto simp: run_env_def run_start_def)
  from train_episodes_lengths [OF y [unfolded out]]
  have len: "length (r_rewards acc) = ?n" "length (r_steps acc) = ?n"
    by (simp_all add: run_start_def)
  from np_max_Inr [OF mx] have ne: "r_steps acc \<noteq> []" and m: "mx = Max (set (r_steps acc))"
    by simp_all
  from ne len(2) have pos: "0 < ?n" by (cases "r_steps acc") auto
  show ?thesis
    using y out w' len pos res m by (intro exI [of _ acc]) simp
qed

theorem run_env_output_witness:
  "run_env (scripted 2 2) exact h_two w_a = Some (Inr result_ab, w_empty) \<and>
   (\<exists>acc. train_episodes (scripted 2 2) exact h_two (num_episodes h_two) (run_start (scripted 2 2) w_a)
            = Some (None, acc) \<and>
      length (r_rewards acc) = 2 \<and> length (r_steps acc) = 2 \<and>
      result_ab = \<lparr>returned_qtable = r_qtable acc,
                   printed_mean_reward = np_mean exact (r_rewards acc),
                   printed_max_steps = Max (set (r_steps acc))\<rparr>)"
proof -
  have n: "num_episodes h_two = 2" by (simp add: h_two_def)
  from run_env_output [OF run_a_result] n run_a_result show ?thesis by auto
qed

subsection \<open>C6: the done flag\<close>

text \<open>
  C6. In both loops the assignment \<^verbatim>\<open>done = terminated or truncated\<close> ends the body: after
  an iteration that completes, \<open>done\<close> is the disjunction of the two flags the environment
  returned in that iteration; an iteration that raises leaves \<open>done\<close> as it was. A loop
  entered with \<open>done\<close> true returns at once, a loop entered with \<open>done\<close> false runs the body
  and continues from its result, and a loop that returns normally returns with \<open>done\<close> true.
  Every episode of \<^verbatim>\<open>run_env\<close> and of \<^verbatim>\<open>evaluation\<close> enters its loop with \<open>done\<close>
  false. Hence a loop that returns normally has made exactly the steps of the episode's
  trace, at least one, of which the last and only the last reported \<^verbatim>\<open>terminated\<close> or
  \<^verbatim>\<open>truncated\<close>; conversely the loop returns whenever the episode has such a trace; and
  the step counts of the completed episodes are the lengths of their traces.
\<close>

theorem done_flag:
  "(train_iter env p h st = (None, st1) \<longrightarrow>
      (\<exists>a w1 ns r te tr w2.
         greedy_epsilon env h (l_qtable st) (l_state st) (l_world st) = (Inr a, w1) \<and>
         env_step env a w1 = ((ns, r, te, tr), w2) \<and> l_done st1 = (te \<or> tr))) \<and>
   (train_iter env p h sb = (Some e1, sb1) \<longrightarrow> l_done sb1 = l_done sb) \<and>
   (eval_iter env p st = (None, st2) \<longrightarrow>
      (\<exists>row a ns r te tr w'.
         row_at (l_qtable st) (l_state st) = Inr row \<and> np_argmax row = Inr a \<and>
         env_step env a (l_world st) = ((ns, r, te, tr), w') \<and> l_done st2 = (te \<or> tr))) \<and>
   (eval_iter env p sb = (Some e2, sb2) \<longrightarrow> l_done sb2 = l_done sb) \<and>
   (l_done sd \<longrightarrow> train_loop env p h sd = Some (None, sd) \<and> eval_loop env p sd = Some (None, sd)) \<and>
   (\<not> l_done st \<longrightarrow>
      train_loop env p h st =
        (case train_iter env p h st of
           (Some e, st') \<Rightarrow> Some (Some e, st')
         | (None, st') \<Rightarrow> train_loop env p h st') \<and>
      eval_loop env p st =
        (case eval_iter env p st of
           (Some e, st') \<Rightarrow> Some (Some e, st')
         | (None, st') \<Rightarrow> eval_loop env p st')) \<and>
   (train_loop env p h st = Some (None, st3) \<longrightarrow> l_done st3) \<and>
   (eval_loop env p st = Some (None, st4) \<longrightarrow> l_done st4) \<and>
   (train_episodes env p h (Suc n) acc = Some y \<longrightarrow>
      (\<exists>z. train_loop env p h
             \<lparr>l_qtable = r_qtable acc, l_state = fst (env_reset env (r_world acc)),
              l_done = False, l_reward = 0, l_steps = 0,
              l_world = snd (env_reset env (r_world acc))\<rparr> = Some z)) \<and>
   (eval_episodes env p (Suc k) tacc = Some ty \<longrightarrow>
      (\<exists>z. eval_loop env p
             \<lparr>l_qtable = t_qtable tacc, l_state = fst (env_reset env (t_world tacc)),
              l_done = False, l_reward = 0, l_steps = 0,
              l_world = snd (env_reset env (t_world tacc))\<rparr> = Some z)) \<and>
   (train_loop env p h sr = Some (None, sr1) \<and> \<not> l_done sr \<longrightarrow>
      (\<exists>rs. train_trace env p h (l_qtable sr) (l_state sr) (l_world sr) rs
               = Some (l_qtable sr1, l_state sr1, l_world sr1) \<and>
            l_steps sr1 = l_steps sr + length rs \<and> l_done sr1)) \<and>
   (eval_loop env p sr = Some (None, sr2) \<and> \<not> l_done sr \<longrightarrow>
      (\<exists>rs. eval_trace env (l_qtable sr) (l_state sr) (l_world sr) rs
               = Some (l_state sr2, l_world sr2) \<and>
            l_steps sr2 = l_steps sr + length rs \<and> l_done sr2)) \<and>
   (train_trace env p h (l_qtable sr) (l_state sr) (l_world sr) trs = Some (qt3, s3, w3) \<and>
    \<not> l_done sr \<longrightarrow>
      train_loop env p h sr =
        Some (None, \<lparr>l_qtable = qt3, l_state = s3, l_done = True,
                       l_reward = foldl (fadd p) (l_reward sr) trs,
                       l_steps = l_steps sr + length trs, l_world = w3\<rparr>)) \<and>
   (eval_trace env (l_qtable sr) (l_state sr) (l_world sr) ers = Some (s4, w4) \<and>
    \<not> l_done sr \<longrightarrow>
      eval_loop env p sr =
        Some (None, sr\<lparr>l_state := s4, l_reward := foldl (fadd p) (l_reward sr) ers,
                         l_steps := l_steps sr + length ers, l_done := True, l_world := w4\<rparr>)) \<and>
   (train_episodes env p h m acc = Some (None, acc') \<longrightarrow>
      (\<exists>rss. train_trials env p h (r_qtable acc) (r_world acc) rss
                = Some (r_qtable acc', r_world acc') \<and>
             length rss = m \<and> r_steps acc' = r_steps acc @ map length rss \<and>
             list_all (\<lambda>rs. rs \<noteq> []) rss)) \<and>
   (eval_episodes env p j tacc = Some (None, tacc') \<longrightarrow>
      (\<exists>rss. eval_trials env (t_qtable tacc) (t_world tacc) rss = Some (t_world tacc') \<and>
             length rss = j \<and> t_steps tacc' = t_steps tacc @ map length rss \<and>
             list_all (\<lambda>rs. rs \<noteq> []) rss))"
proof (intro conjI impI)
  assume "train_iter env p h st = (None, st1)"
  then show "\<exists>a w1 ns r te tr w2.
         greedy_epsilon env h (l_qtable st) (l_state st) (l_world st) = (Inr a, w1) \<and>
         env_step env a w1 = ((ns, r, te, tr), w2) \<and> l_done st1 = (te \<or> tr)"
  proof (cases rule: train_iter_cases)
    case (stepped a w1 ns r te tr w2 qt')
    then show ?thesis by (intro exI [of _ a] exI [of _ w1] exI [of _ ns] exI [of _ r]
          exI [of _ te] exI [of _ tr] exI [of _ w2]) simp
  qed simp_all
next
  assume "train_iter env p h sb = (Some e1, sb1)"
  then show "l_done sb1 = l_done sb"
    by (cases rule: train_iter_cases) simp_all
next
  assume "eval_iter env p st = (None, st2)"
  then show "\<exists>row a ns r te tr w'.
         row_at (l_qtable st) (l_state st) = Inr row \<and> np_argmax row = Inr a \<and>
         env_step env a (l_world st) = ((ns, r, te, tr), w') \<and> l_done st2 = (te \<or> tr)"
  proof (cases rule: eval_iter_cases)
    case (stepped row a ns r te tr w')
    then show ?thesis by (intro exI [of _ row] exI [of _ a] exI [of _ ns] exI [of _ r]
          exI [of _ te] exI [of _ tr] exI [of _ w']) simp
  qed simp_all
next
  assume "eval_iter env p sb = (Some e2, sb2)"
  then show "l_done sb2 = l_done sb"
    by (cases rule: eval_iter_cases) simp_all
next
  assume "l_done sd"
  then show "train_loop env p h sd = Some (None, sd)"
    by (subst train_loop.simps) simp
next
  assume "l_done sd"
  then show "eval_loop env p sd = Some (None, sd)"
    by (subst eval_loop.simps) simp
next
  assume "\<not> l_done st"
  then show "train_loop env p h st =
        (case train_iter env p h st of
           (Some e, st') \<Rightarrow> Some (Some e, st')
         | (None, st') \<Rightarrow> train_loop env p h st')"
    by (subst train_loop.simps) simp
next
  assume "\<not> l_done st"
  then show "eval_loop env p st =
        (case eval_iter env p st of
           (Some e, st') \<Rightarrow> Some (Some e, st')
         | (None, st') \<Rightarrow> eval_loop env p st')"
    by (subst eval_loop.simps) simp
next
  assume "train_loop env p h st = Some (None, st3)"
  from train_loop_exit [OF this] show "l_done st3" by simp
next
  assume "eval_loop env p st = Some (None, st4)"
  from eval_loop_exit [OF this] show "l_done st4" by simp
next
  assume "train_episodes env p h (Suc n) acc = Some y"
  then show "\<exists>z. train_loop env p h
             \<lparr>l_qtable = r_qtable acc, l_state = fst (env_reset env (r_world acc)),
              l_done = False, l_reward = 0, l_steps = 0,
              l_world = snd (env_reset env (r_world acc))\<rparr> = Some z"
    by (cases rule: train_episodes_step) auto
next
  assume "eval_episodes env p (Suc k) tacc = Some ty"
  then show "\<exists>z. eval_loop env p
             \<lparr>l_qtable = t_qtable tacc, l_state = fst (env_reset env (t_world tacc)),
              l_done = False, l_reward = 0, l_steps = 0,
              l_world = snd (env_reset env (t_world tacc))\<rparr> = Some z"
    by (cases rule: eval_episodes_step) auto
next
  assume a: "train_loop env p h sr = Some (None, sr1) \<and> \<not> l_done sr"
  then have "train_loop env p h sr = Some (None, sr1)" by simp
  from train_loop_trace [OF this] a
  show "\<exists>rs. train_trace env p h (l_qtable sr) (l_state sr) (l_world sr) rs
               = Some (l_qtable sr1, l_state sr1, l_world sr1) \<and>
            l_steps sr1 = l_steps sr + length rs \<and> l_done sr1"
    by auto
next
  assume a: "eval_loop env p sr = Some (None, sr2) \<and> \<not> l_done sr"
  then have "eval_loop env p sr = Some (None, sr2)" by simp
  from eval_loop_trace [OF this] a
  show "\<exists>rs. eval_trace env (l_qtable sr) (l_state sr) (l_world sr) rs
               = Some (l_state sr2, l_world sr2) \<and>
            l_steps sr2 = l_steps sr + length rs \<and> l_done sr2"
    by auto
next
  assume "train_trace env p h (l_qtable sr) (l_state sr) (l_world sr) trs = Some (qt3, s3, w3) \<and>
    \<not> l_done sr"
  then show "train_loop env p h sr =
        Some (None, \<lparr>l_qtable = qt3, l_state = s3, l_done = True,
                       l_reward = foldl (fadd p) (l_reward sr) trs,
                       l_steps = l_steps sr + length trs, l_world = w3\<rparr>)"
    by (intro train_trace_loop) simp_all
next
  assume "eval_trace env (l_qtable sr) (l_state sr) (l_world sr) ers = Some (s4, w4) \<and>
    \<not> l_done sr"
  then show "eval_loop env p sr =
        Some (None, sr\<lparr>l_state := s4, l_reward := foldl (fadd p) (l_reward sr) ers,
                         l_steps := l_steps sr + length ers, l_done := True, l_world := w4\<rparr>)"
    by (intro eval_trace_loop) simp_all
next
  assume "train_episodes env p h m acc = Some (None, acc')"
  from train_episodes_trials [OF this] obtain rss where
    t: "train_trials env p h (r_qtable acc) (r_world acc) rss = Some (r_qtable acc', r_world acc')"
    and r: "length rss = m" "r_steps acc' = r_steps acc @ map length rss"
    by blast
  from train_trials_nonempty [OF t] t r
  show "\<exists>rss. train_trials env p h (r_qtable acc) (r_world acc) rss
                = Some (r_qtable acc', r_world acc') \<and>
             length rss = m \<and> r_steps acc' = r_steps acc @ map length rss \<and>
             list_all (\<lambda>rs. rs \<noteq> []) rss"
    by blast
next
  assume "eval_episodes env p j tacc = Some (None, tacc')"
  from eval_episodes_trials [OF this] obtain rss where
    t: "eval_trials env (t_qtable tacc) (t_world tacc) rss = Some (t_world tacc')"
    and r: "length rss = j" "t_steps tacc' = t_steps tacc @ map length rss"
    by blast
  from eval_trials_nonempty [OF t] t r
  show "\<exists>rss. eval_trials env (t_qtable tacc) (t_world tacc) rss = Some (t_world tacc') \<and>
             length rss = j \<and> t_steps tacc' = t_steps tacc @ map length rss \<and>
             list_all (\<lambda>rs. rs \<noteq> []) rss"
    by blast
qed

theorem done_flag_witness:
  "train_iter (scripted 2 2) exact h_half ep_one = (None, ep_one_trained) \<and>
   train_iter (scripted 2 2) exact h_half ep_bad = (Some IndexError, ep_bad) \<and>
   eval_iter (scripted 2 2) exact ep_one = (None, ep_one_evaluated) \<and>
   eval_iter (scripted 2 2) exact ep_bad = (Some IndexError, ep_bad) \<and>
   l_done ep_one_trained \<and> \<not> l_done ep_one \<and>
   train_loop (scripted 2 2) exact h_half ep_one = Some (None, ep_one_trained) \<and>
   eval_loop (scripted 2 2) exact ep_one = Some (None, ep_one_evaluated) \<and>
   (\<exists>a w1 ns r te tr w2.
      greedy_epsilon (scripted 2 2) h_half (l_qtable ep_one) (l_state ep_one) (l_world ep_one) = (Inr a, w1) \<and>
      env_step (scripted 2 2) a w1 = ((ns, r, te, tr), w2) \<and> l_done ep_one_trained = (te \<or> tr)) \<and>
   l_done ep_bad = l_done ep_bad \<and>
   train_loop (scripted 2 2) exact h_half ep_one_trained = Some (None, ep_one_trained) \<and>
   l_done ep_one_evaluated \<and>
   train_episodes (scripted 2 2) exact h_half (Suc 0) run_two = Some (None, run_two_done) \<and>
   eval_episodes (scripted 2 2) exact (Suc 0) (trials_start [[0, 0], [0, 0]] w_two)
     = Some (None, trials_two_done) \<and>
   train_loop (scripted 2 2) exact h_half ep_two = Some (None, ep_two_trained) \<and>
   eval_loop (scripted 2 2) exact ep_two = Some (None, ep_two_evaluated) \<and>
   \<not> l_done ep_two \<and>
   train_trace (scripted 2 2) exact h_half (l_qtable ep_two) (l_state ep_two) (l_world ep_two) [0, 1]
     = Some ([[0, 0], [1/2, 0]], 0, w_empty) \<and>
   eval_trace (scripted 2 2) (l_qtable ep_two) (l_state ep_two) (l_world ep_two) [0, 1]
     = Some (0, w_empty) \<and>
   r_steps run_two_done = [2] \<and> t_steps trials_two_done = [2] \<and>
   (\<exists>z. train_loop (scripted 2 2) exact h_half
          \<lparr>l_qtable = r_qtable run_two,
             l_state = fst (env_reset (scripted 2 2) (r_world run_two)),
             l_done = False, l_reward = 0, l_steps = 0,
             l_world = snd (env_reset (scripted 2 2) (r_world run_two))\<rparr> = Some z) \<and>
   (\<exists>rs. train_trace (scripted 2 2) exact h_half (l_qtable ep_two) (l_state ep_two)
            (l_world ep_two) rs
            = Some (l_qtable ep_two_trained, l_state ep_two_trained, l_world ep_two_trained) \<and>
         l_steps ep_two_trained = l_steps ep_two + length rs \<and> l_done ep_two_trained) \<and>
   (\<exists>rss. train_trials (scripted 2 2) exact h_half (r_qtable run_two) (r_world run_two) rss
             = Some (r_qtable run_two_done, r_world run_two_done) \<and>
          length rss = Suc 0 \<and> r_steps run_two_done = r_steps run_two @ map length rss \<and>
          list_all (\<lambda>rs. rs \<noteq> []) rss)"
proof -
  have nd: "\<not> l_done ep_two" by (simp add: ep_two_def)
  have st: "r_steps run_two_done = [2]" "t_steps trials_two_done = [2]"
    by (simp_all add: run_two_done_def trials_two_done_def)
  have d: "l_done ep_one_trained" "\<not> l_done ep_one"
    by (simp_all add: ep_one_trained_def ep_one_def ep_start_def)
  note f = done_flag [of "scripted 2 2" exact h_half ep_one ep_one_trained ep_bad IndexError ep_bad
      ep_one_evaluated IndexError ep_bad ep_one_trained ep_one_trained ep_one_evaluated,
      where n = 0
      and acc = run_two and y = "(None, run_two_done)" and k = 0
      and tacc = "trials_start [[0, 0], [0, 0]] w_two" and ty = "(None, trials_two_done)"
      and sr = ep_two and ?sr1.0 = ep_two_trained and ?sr2.0 = ep_two_evaluated
      and trs = "[0, 1]" and ?qt3.0 = "[[0, 0], [1/2, 0]]" and ?s3.0 = 0 and ?w3.0 = w_empty
      and ers = "[0, 1]" and ?s4.0 = 0 and ?w4.0 = w_empty
      and m = "Suc 0" and acc' = run_two_done and j = "Suc 0" and tacc' = trials_two_done]
  from f ep_one_train_iter ep_bad_train_iter ep_one_eval_iter ep_bad_eval_iter d
    ep_one_train_loop ep_one_eval_loop
    run_two_episodes trials_two_episodes ep_two_train_loop ep_two_eval_loop nd
    ep_two_train_trace ep_two_eval_trace st
  show ?thesis by blast
qed

subsection \<open>C7: evaluation does not write the table\<close>

text \<open>
  C7. Whatever \<^verbatim>\<open>evaluation\<close> does (report, or raise), the table after the call is the
  table before the call: no iteration of its loop writes it.
\<close>

theorem evaluation_keeps_qtable:
  assumes "evaluation env p qt num_trials w = Some (out, qt', w')"
  shows "qt' = qt"
proof -
  let ?acc0 = "trials_start qt w"
  from assms obtain y where y: "eval_episodes env p num_trials ?acc0 = Some y"
    by (cases "eval_episodes env p num_trials ?acc0") (auto simp: evaluation_def)
  from eval_episodes_qtable [OF y] have q: "t_qtable (snd y) = qt"
    by (simp add: trials_start_def)
  from assms y have "qt' = t_qtable (snd y)"
    by (auto simp: evaluation_def split: option.splits prod.splits sum.splits)
  with q show ?thesis by simp
qed

theorem evaluation_keeps_qtable_witness:
  "evaluation (scripted 2 2) exact [[0, 1/2], [0, 0]] 1 w_one
     = Some (Inr report_one, [[0, 1/2], [0, 0]], w_empty) \<and>
   [[0, 1/2], [0, 0::real]] = [[0, 1/2], [0, 0]]"
  using evaluation_keeps_qtable [OF w_one_evaluation] w_one_evaluation by blast

subsection \<open>C8: the success counter and the success rate\<close>

text \<open>
  C8. One trial episode appends to \<^verbatim>\<open>rewards\<close> its accumulated reward, the rewards of its
  steps added up from 0 in order, and increments \<^verbatim>\<open>num_successes\<close> exactly when that sum
  is 1. When \<^verbatim>\<open>evaluation\<close> reports, there was at least one trial, the counter is the
  number of episodes whose accumulated reward is 1, and the success rate is that number
  divided (as doubles) by the number of trials. It does report when there is at least one
  trial and every episode completes, in particular whenever every episode has a trace.
\<close>

theorem evaluation_success_rate:
  "(eval_episodes env p (Suc 0) acc = Some (None, acc1) \<longrightarrow>
      (\<exists>rs s1.
         eval_trace env (t_qtable acc) (fst (env_reset env (t_world acc)))
           (snd (env_reset env (t_world acc))) rs = Some (s1, t_world acc1) \<and>
         t_rewards acc1 = t_rewards acc @ [foldl (fadd p) 0 rs] \<and>
         t_steps acc1 = t_steps acc @ [length rs] \<and>
         t_successes acc1 =
           (if foldl (fadd p) 0 rs = 1 then t_successes acc + 1 else t_successes acc))) \<and>
   (evaluation env p qt num_trials w = Some (Inr rep, qt', w') \<longrightarrow>
      (\<exists>acc' rss.
         eval_episodes env p num_trials (trials_start qt w) = Some (None, acc') \<and>
         eval_trials env qt w rss = Some w' \<and>
         t_rewards acc' = map (foldl (fadd p) 0) rss \<and> t_steps acc' = map length rss \<and>
         length rss = num_trials \<and>
         length (t_rewards acc') = num_trials \<and> 0 < num_trials \<and>
         t_successes acc' = length (filter (\<lambda>r. r = 1) (t_rewards acc')) \<and>
         t_successes acc' = length (filter (\<lambda>rs. foldl (fadd p) 0 rs = 1) rss) \<and>
         success_rate rep =
           fdiv p (real (length (filter (\<lambda>r. r = 1) (t_rewards acc')))) (real num_trials) \<and>
         (fl p = (\<lambda>x. x) \<longrightarrow>
            success_rate rep =
              real (length (filter (\<lambda>r. r = 1) (t_rewards acc'))) / real num_trials) \<and>
         mean_reward rep = np_mean p (t_rewards acc') \<and>
         max_steps rep = Max (set (t_steps acc')))) \<and>
   (eval_episodes env p num_trials (trials_start qt w) = Some (None, acc2) \<and> 0 < num_trials \<longrightarrow>
      (\<exists>rep2. evaluation env p qt num_trials w = Some (Inr rep2, t_qtable acc2, t_world acc2))) \<and>
   (eval_trials env qt w tss = Some w3 \<and> tss \<noteq> [] \<longrightarrow>
      evaluation env p qt (length tss) w =
        Some (Inr \<lparr>mean_reward = np_mean p (map (foldl (fadd p) 0) tss),
                    max_steps = Max (set (map length tss)),
                    success_rate =
                      fdiv p (real (length (filter (\<lambda>rs. foldl (fadd p) 0 rs = 1) tss)))
                        (real (length tss))\<rparr>,
              qt, w3))"
proof (intro conjI impI)
  assume a: "eval_episodes env p (Suc 0) acc = Some (None, acc1)"
  from eval_episodes_trials [OF a] obtain rss where
    t: "eval_trials env (t_qtable acc) (t_world acc) rss = Some (t_world acc1)"
    and len: "length rss = Suc 0"
    and r: "t_rewards acc1 = t_rewards acc @ map (foldl (fadd p) 0) rss"
    and s: "t_steps acc1 = t_steps acc @ map length rss"
    and k: "t_successes acc1 =
              t_successes acc + length (filter (\<lambda>rs. foldl (fadd p) 0 rs = 1) rss)"
    by blast
  from len obtain rs where rss: "rss = [rs]" by (cases rss) auto
  from t obtain s1 where
    "eval_trace env (t_qtable acc) (fst (env_reset env (t_world acc)))
       (snd (env_reset env (t_world acc))) rs = Some (s1, t_world acc1)"
    unfolding rss by (auto split: prod.splits option.splits)
  with r s k show "\<exists>rs s1.
         eval_trace env (t_qtable acc) (fst (env_reset env (t_world acc)))
           (snd (env_reset env (t_world acc))) rs = Some (s1, t_world acc1) \<and>
         t_rewards acc1 = t_rewards acc @ [foldl (fadd p) 0 rs] \<and>
         t_steps acc1 = t_steps acc @ [length rs] \<and>
         t_successes acc1 =
           (if foldl (fadd p) 0 rs = 1 then t_successes acc + 1 else t_successes acc)"
    unfolding rss by (intro exI [of _ rs] exI [of _ s1]) simp
next
  let ?acc0 = "trials_start qt w"
  assume ev: "evaluation env p qt num_trials w = Some (Inr rep, qt', w')"
  then obtain out acc' where y: "eval_episodes env p num_trials ?acc0 = Some (out, acc')"
    by (cases "eval_episodes env p num_trials ?acc0") (auto simp: evaluation_def)
  from ev y have out: "out = None"
    by (cases out) (auto simp: evaluation_def)
  from ev y out obtain mx where mx: "np_max (t_steps acc') = Inr mx"
    by (cases "np_max (t_steps acc')") (auto simp: evaluation_def)
  from ev y out mx have rep: "rep = \<lparr>mean_reward = np_mean p (t_rewards acc'), max_steps = mx,
      success_rate = fdiv p (real (t_successes acc')) (real num_trials)\<rparr>"
    and w': "t_world acc' = w'"
    by (auto simp: evaluation_def)
  from eval_episodes_trials [OF y [unfolded out]] obtain rss where
    t: "eval_trials env qt w rss = Some (t_world acc')"
    and len: "length rss = num_trials"
    and r: "t_rewards acc' = map (foldl (fadd p) 0) rss"
    and s: "t_steps acc' = map length rss"
    and k: "t_successes acc' = length (filter (\<lambda>rs. foldl (fadd p) 0 rs = 1) rss)"
    by (auto simp: trials_start_def)
  have k': "length (filter (\<lambda>r. r = 1) (t_rewards acc'))
              = length (filter (\<lambda>rs. foldl (fadd p) 0 rs = 1) rss)"
    unfolding r by (simp add: filter_map o_def)
  from np_max_Inr [OF mx] have ne: "t_steps acc' \<noteq> []" and m: "mx = Max (set (t_steps acc'))"
    by simp_all
  from ne s len have pos: "0 < num_trials" by (cases rss) auto
  show "\<exists>acc' rss.
         eval_episodes env p num_trials (trials_start qt w) = Some (None, acc') \<and>
         eval_trials env qt w rss = Some w' \<and>
         t_rewards acc' = map (foldl (fadd p) 0) rss \<and> t_steps acc' = map length rss \<and>
         length rss = num_trials \<and>
         length (t_rewards acc') = num_trials \<and> 0 < num_trials \<and>
         t_successes acc' = length (filter (\<lambda>r. r = 1) (t_rewards acc')) \<and>
         t_successes acc' = length (filter (\<lambda>rs. foldl (fadd p) 0 rs = 1) rss) \<and>
         success_rate rep =
           fdiv p (real (length (filter (\<lambda>r. r = 1) (t_rewards acc')))) (real num_trials) \<and>
         (fl p = (\<lambda>x. x) \<longrightarrow>
            success_rate rep =
              real (length (filter (\<lambda>r. r = 1) (t_rewards acc'))) / real num_trials) \<and>
         mean_reward rep = np_mean p (t_rewards acc') \<and>
         max_steps rep = Max (set (t_steps acc'))"
  proof (intro exI [of _ acc'] exI [of _ rss] conjI impI)
    show "eval_episodes env p num_trials (trials_start qt w) = Some (None, acc')"
      using y out by simp
    show "eval_trials env qt w rss = Some w'" using t w' by simp
    show "t_rewards acc' = map (foldl (fadd p) 0) rss" by (rule r)
    show "t_steps acc' = map length rss" by (rule s)
    show "length rss = num_trials" by (rule len)
    show "length (t_rewards acc') = num_trials" using r len by simp
    show "0 < num_trials" by (rule pos)
    show "t_successes acc' = length (filter (\<lambda>r. r = 1) (t_rewards acc'))"
      using k k' by simp
    show "t_successes acc' = length (filter (\<lambda>rs. foldl (fadd p) 0 rs = 1) rss)" by (rule k)
    show "success_rate rep =
           fdiv p (real (length (filter (\<lambda>r. r = 1) (t_rewards acc')))) (real num_trials)"
      using rep k k' by simp
    show "success_rate rep =
              real (length (filter (\<lambda>r. r = 1) (t_rewards acc'))) / real num_trials"
      if "fl p = (\<lambda>x. x)"
      using rep k k' that by (simp add: fdiv_def)
    show "mean_reward rep = np_mean p (t_rewards acc')" using rep by simp
    show "max_steps rep = Max (set (t_steps acc'))" using rep m by simp
  qed
next
  assume "eval_episodes env p num_trials (trials_start qt w) = Some (None, acc2) \<and> 0 < num_trials"
  then show "\<exists>rep2. evaluation env p qt num_trials w = Some (Inr rep2, t_qtable acc2, t_world acc2)"
    by (intro evaluation_reports) simp_all
next
  assume a: "eval_trials env qt w tss = Some w3 \<and> tss \<noteq> []"
  then have t: "eval_trials env (t_qtable (trials_start qt w)) (t_world (trials_start qt w)) tss
                  = Some w3"
    by (simp add: trials_start_def)
  from a obtain ts tss' where tss: "tss = ts # tss'" by (cases tss) auto
  have mx: "np_max (map length tss) = Inr (Max (set (map length tss)))"
    unfolding tss using Max.set_eq_fold [of "length ts" "map length tss'"]
    by (simp add: np_max_def)
  show "evaluation env p qt (length tss) w =
        Some (Inr \<lparr>mean_reward = np_mean p (map (foldl (fadd p) 0) tss),
                    max_steps = Max (set (map length tss)),
                    success_rate =
                      fdiv p (real (length (filter (\<lambda>rs. foldl (fadd p) 0 rs = 1) tss)))
                        (real (length tss))\<rparr>,
              qt, w3)"
    using eval_trials_episodes [OF t, of p] mx
    by (simp add: evaluation_def trials_start_def)
qed

theorem evaluation_success_rate_witness:
  "eval_episodes (scripted 2 2) exact (Suc 0) (trials_start [[0, 0], [0, 0]] w_halves)
     = Some (None, trials_two_done) \<and>
   evaluation (scripted 2 2) exact [[0, 0], [0, 0]] 2 w_mixed
     = Some (Inr report_mixed, [[0, 0], [0, 0]], w_empty) \<and>
   fl exact = (\<lambda>x. x) \<and>
   eval_episodes (scripted 2 2) exact 2 (trials_start [[0, 0], [0, 0]] w_mixed)
     = Some (None, trials_mixed_done) \<and>
   eval_trials (scripted 2 2) [[0, 0], [0, 0]] w_mixed [[1/2, 1/2], [1/2]] = Some w_empty \<and>
   [[1/2, 1/2], [1/2::real]] \<noteq> [] \<and>
   foldl (fadd exact) 0 [1/2, 1/2] = 1 \<and> success_rate report_mixed = 1/2 \<and>
   (\<exists>rs s1.
      eval_trace (scripted 2 2) (t_qtable (trials_start [[0, 0], [0, 0]] w_halves))
        (fst (env_reset (scripted 2 2) (t_world (trials_start [[0, 0], [0, 0]] w_halves))))
        (snd (env_reset (scripted 2 2) (t_world (trials_start [[0, 0], [0, 0]] w_halves)))) rs
        = Some (s1, t_world trials_two_done) \<and>
      t_rewards trials_two_done
        = t_rewards (trials_start [[0, 0], [0, 0]] w_halves) @ [foldl (fadd exact) 0 rs] \<and>
      t_steps trials_two_done
        = t_steps (trials_start [[0, 0], [0, 0]] w_halves) @ [length rs] \<and>
      t_successes trials_two_done =
        (if foldl (fadd exact) 0 rs = 1
         then t_successes (trials_start [[0, 0], [0, 0]] w_halves) + 1
         else t_successes (trials_start [[0, 0], [0, 0]] w_halves))) \<and>
   (\<exists>acc' rss.
      eval_episodes (scripted 2 2) exact 2 (trials_start [[0, 0], [0, 0]] w_mixed)
        = Some (None, acc') \<and>
      eval_trials (scripted 2 2) [[0, 0], [0, 0]] w_mixed rss = Some w_empty \<and>
      t_rewards acc' = map (foldl (fadd exact) 0) rss \<and> length rss = 2 \<and>
      t_successes acc' = length (filter (\<lambda>rs. foldl (fadd exact) 0 rs = 1) rss) \<and>
      success_rate report_mixed =
        real (length (filter (\<lambda>r. r = 1) (t_rewards acc'))) / real (2::nat)) \<and>
   (\<exists>rep2. evaluation (scripted 2 2) exact [[0, 0], [0, 0]] 2 w_mixed
            = Some (Inr rep2, t_qtable trials_mixed_done, t_world trials_mixed_done)) \<and>
   evaluation (scripted 2 2) exact [[0, 0], [0, 0]] (length [[1/2, 1/2], [1/2::real]]) w_mixed =
     Some (Inr \<lparr>mean_reward = np_mean exact (map (foldl (fadd exact) 0) [[1/2, 1/2], [1/2]]),
                 max_steps = Max (set (map length [[1/2, 1/2], [1/2::real]])),
                 success_rate =
                   fdiv exact
                     (real (length (filter (\<lambda>rs. foldl (fadd exact) 0 rs = 1)
                                      [[1/2, 1/2], [1/2]])))
                     (real (length [[1/2, 1/2], [1/2::real]]))\<rparr>,
           [[0, 0], [0, 0]], w_empty)"
proof -
  have e: "fl exact = (\<lambda>x. x)" by (simp add: exact_def)
  have ne: "[[1/2, 1/2], [1/2::real]] \<noteq> []" by simp
  have sum: "foldl (fadd exact) 0 [1/2, 1/2] = 1" by (simp add: fadd_def exact_def)
  have rate: "success_rate report_mixed = 1/2" by (simp add: report_mixed_def)
  have pos: "0 < (2::nat)" by simp
  note t = evaluation_success_rate [where env = "scripted 2 2" and p = exact
      and acc = "trials_start [[0, 0], [0, 0]] w_halves" and ?acc1.0 = trials_two_done
      and qt = "[[0, 0], [0, 0]]" and num_trials = 2 and w = w_mixed and rep = report_mixed
      and qt' = "[[0, 0], [0, 0]]" and w' = w_empty and ?acc2.0 = trials_mixed_done
      and tss = "[[1/2, 1/2], [1/2]]" and ?w3.0 = w_empty]
  from t w_halves_episodes w_mixed_evaluation w_mixed_episodes w_mixed_trials e ne sum rate pos
  show ?thesis by blast
qed

subsection \<open>C9: indices out of range\<close>

text \<open>
  C9, as stated, fails: the environment returns the state \<open>-1\<close>, outside \<open>[0, 2)\<close>. No
  error is raised; the first step reads row \<open>-1\<close> (the last row) for its target and writes
  the table, and the second step writes the entry \<open>(-1, 0)\<close>, that is, \<open>(1, 0)\<close>.
\<close>

theorem train_negative_state_counterexample:
  "greedy_epsilon (scripted 2 2) h_half (l_qtable ep_neg) (l_state ep_neg) (l_world ep_neg)
     = (Inr 0, l_world ep_neg) \<and>
   env_step (scripted 2 2) 0 (l_world ep_neg) = ((- 1, 1, False, False), l_world ep_neg1) \<and>
   \<not> (0 \<le> (- 1 :: int) \<and> (- 1 :: int) < int (length (l_qtable ep_neg))) \<and>
   train_iter (scripted 2 2) exact h_half ep_neg = (None, ep_neg1) \<and>
   l_qtable ep_neg = [[0, 0], [0, 0]] \<and>
   l_qtable ep_neg1 = [[1/2, 0], [0, 0]] \<and>
   l_state ep_neg1 = - 1 \<and>
   train_iter (scripted 2 2) exact h_half ep_neg1 = (None, ep_neg2) \<and>
   l_qtable ep_neg2 = [[1/2, 0], [1/2, 0]]"
  by (simp add: ep_neg_def ep_neg1_def ep_neg2_def model_defs)

text \<open>
  C9, amended. On a rectangular table with \<open>S\<close> rows and \<open>A > 0\<close> columns, a training step
  whose current state or new state lies outside \<open>[-S, S)\<close>, or whose action lies outside
  \<open>[-A, A)\<close>, raises IndexError, and the table, the state and the flag are as before the
  step. Nothing is promised for a negative index inside \<open>[-S, 0)\<close> or \<open>[-A, 0)\<close>.
\<close>

theorem train_iter_index_error:
  assumes rect: "\<forall>row\<in>set (l_qtable st). length row = A" and A: "0 < A"
    and it: "train_iter env p h st = (out, st')"
    and bad: "l_state st < - int (length (l_qtable st)) \<or> int (length (l_qtable st)) \<le> l_state st \<or>
      (\<exists>a w1 ns r te tr w2.
         greedy_epsilon env h (l_qtable st) (l_state st) (l_world st) = (Inr a, w1) \<and>
         env_step env a w1 = ((ns, r, te, tr), w2) \<and>
         (a < - int A \<or> int A \<le> a \<or>
          ns < - int (length (l_qtable st)) \<or> int (length (l_qtable st)) \<le> ns))"
  shows "out = Some IndexError \<and> l_qtable st' = l_qtable st \<and> l_state st' = l_state st \<and>
         l_done st' = l_done st"
  using it
proof (cases rule: train_iter_cases)
  case (select_raises e w1)
  with greedy_epsilon_Inl [OF rect A] show ?thesis by simp
next
  case (update_raises a w1 ns r te tr w2 e)
  with q_update_Inl [OF rect A] show ?thesis by simp
next
  case (stepped a w1 ns r te tr w2 qt')
  from q_update_InrD [OF stepped(3)] obtain i j row
    where i: "np_index (length (l_qtable st)) (l_state st) = Some i"
      and j: "np_index (length (l_qtable st ! i)) a = Some j"
      and row: "row_at (l_qtable st) ns = Inr row"
    by blast
  have "length (l_qtable st ! i) = A"
    using rect np_index_bound [OF i] by simp
  with j have ja: "np_index A a \<noteq> None" by simp
  from row have ns: "np_index (length (l_qtable st)) ns \<noteq> None"
    by (auto dest: row_at_InrD)
  from i have s: "np_index (length (l_qtable st)) (l_state st) \<noteq> None" by simp
  from bad stepped(1,2) ja ns s have False
    by (auto simp: np_index_None_iff)
  then show ?thesis ..
qed

theorem train_iter_index_error_witness:
  "l_qtable ep_big = [[0, 0], [0, 0]] \<and>
   train_iter (scripted 2 2) exact h_half ep_big = (Some IndexError, ep_big\<lparr>l_world := w_empty\<rparr>) \<and>
   greedy_epsilon (scripted 2 2) h_half (l_qtable ep_big) (l_state ep_big) (l_world ep_big)
     = (Inr 0, l_world ep_big) \<and>
   env_step (scripted 2 2) 0 (l_world ep_big) = ((2, 1, False, False), w_empty) \<and>
   int (length (l_qtable ep_big)) \<le> 2 \<and>
   l_qtable (ep_big\<lparr>l_world := w_empty\<rparr>) = l_qtable ep_big"
proof -
  have rect: "\<forall>row\<in>set (l_qtable ep_big). length row = 2"
    by (simp add: ep_big_def ep_start_def)
  have A: "0 < (2::nat)" by simp
  have it: "train_iter (scripted 2 2) exact h_half ep_big
              = (Some IndexError, ep_big\<lparr>l_world := w_empty\<rparr>)"
    by (simp add: ep_big_def w_empty_def model_defs)
  have g: "greedy_epsilon (scripted 2 2) h_half (l_qtable ep_big) (l_state ep_big) (l_world ep_big)
             = (Inr 0, l_world ep_big)"
    by (simp add: ep_big_def model_defs)
  have s: "env_step (scripted 2 2) 0 (l_world ep_big) = ((2, 1, False, False), w_empty)"
    by (simp add: ep_big_def w_empty_def model_defs)
  have b: "int (length (l_qtable ep_big)) \<le> 2"
    by (simp add: ep_big_def ep_start_def)
  have bad: "l_state ep_big < - int (length (l_qtable ep_big)) \<or>
      int (length (l_qtable ep_big)) \<le> l_state ep_big \<or>
      (\<exists>a w1 ns r te tr w2.
         greedy_epsilon (scripted 2 2) h_half (l_qtable ep_big) (l_state ep_big) (l_world ep_big)
           = (Inr a, w1) \<and>
         env_step (scripted 2 2) a w1 = ((ns, r, te, tr), w2) \<and>
         (a < - int 2 \<or> int 2 \<le> a \<or>
          ns < - int (length (l_qtable ep_big)) \<or> int (length (l_qtable ep_big)) \<le> ns))"
    using g s b by blast
  have q: "l_qtable ep_big = [[0, 0], [0, 0]]"
    by (simp add: ep_big_def ep_start_def)
  from train_iter_index_error [OF rect A it bad] q it g s b show ?thesis by blast
qed

subsection \<open>C10: the frame of the update rule\<close>

text \<open>
  C10. A successful application of the update rule changes at most the entry at \<open>(s, a)\<close>
  (as numpy resolves the two indices): every other entry keeps its value, and the shape of
  the table is the same. In a training step that completes, \<open>s\<close> is the state before the
  transition and \<open>a\<close> the action the selector returned; a training step that raises
  leaves the whole table as it was.
\<close>

theorem update_frame:
  "(q_update p h qt s a r s' = Inr qt' \<longrightarrow>
      (\<exists>i j. np_index (length qt) s = Some i \<and> np_index (length (qt ! i)) a = Some j \<and>
         (\<forall>i' j'. (i', j') \<noteq> (i, j) \<longrightarrow> qt' ! i' ! j' = qt ! i' ! j') \<and>
         map length qt' = map length qt)) \<and>
   (train_iter env p h st = (None, st1) \<longrightarrow>
      (\<exists>a w1 i j.
         greedy_epsilon env h (l_qtable st) (l_state st) (l_world st) = (Inr a, w1) \<and>
         np_index (length (l_qtable st)) (l_state st) = Some i \<and>
         np_index (length (l_qtable st ! i)) a = Some j \<and>
         (\<forall>i' j'. (i', j') \<noteq> (i, j) \<longrightarrow> l_qtable st1 ! i' ! j' = l_qtable st ! i' ! j') \<and>
         map length (l_qtable st1) = map length (l_qtable st))) \<and>
   (train_iter env p h sb = (Some e, sb1) \<longrightarrow> l_qtable sb1 = l_qtable sb)"
proof (intro conjI impI)
  assume "q_update p h qt s a r s' = Inr qt'"
  then show "\<exists>i j. np_index (length qt) s = Some i \<and> np_index (length (qt ! i)) a = Some j \<and>
         (\<forall>i' j'. (i', j') \<noteq> (i, j) \<longrightarrow> qt' ! i' ! j' = qt ! i' ! j') \<and>
         map length qt' = map length qt"
    by (rule q_update_frame)
next
  assume "train_iter env p h st = (None, st1)"
  then show "\<exists>a w1 i j.
         greedy_epsilon env h (l_qtable st) (l_state st) (l_world st) = (Inr a, w1) \<and>
         np_index (length (l_qtable st)) (l_state st) = Some i \<and>
         np_index (length (l_qtable st ! i)) a = Some j \<and>
         (\<forall>i' j'. (i', j') \<noteq> (i, j) \<longrightarrow> l_qtable st1 ! i' ! j' = l_qtable st ! i' ! j') \<and>
         map length (l_qtable st1) = map length (l_qtable st)"
  proof (cases rule: train_iter_cases)
    case (stepped a w1 ns r te tr w2 qt')
    from q_update_frame [OF stepped(3)] obtain i j where
      "np_index (length (l_qtable st)) (l_state st) = Some i"
      "np_index (length (l_qtable st ! i)) a = Some j"
      "\<forall>i' j'. (i', j') \<noteq> (i, j) \<longrightarrow> qt' ! i' ! j' = l_qtable st ! i' ! j'"
      "map length qt' = map length (l_qtable st)"
      by blast
    with stepped(1,5) show ?thesis
      by (intro exI [of _ a] exI [of _ w1] exI [of _ i] exI [of _ j]) simp
  qed simp_all
next
  assume "train_iter env p h sb = (Some e, sb1)"
  then show "l_qtable sb1 = l_qtable sb"
    by (cases rule: train_iter_cases) simp_all
qed

theorem update_frame_witness:
  "q_update exact h_half [[0, 0], [0, 0]] 0 1 1 1 = Inr [[0, 1/2], [0, 0]] \<and>
   train_iter (scripted 2 2) exact h_half ep_one = (None, ep_one_trained) \<and>
   train_iter (scripted 2 2) exact h_half ep_bad = (Some IndexError, ep_bad) \<and>
   (\<exists>i j. np_index (length [[0, 0], [0, 0::real]]) 0 = Some i \<and>
      np_index (length ([[0, 0], [0, 0::real]] ! i)) 1 = Some j \<and>
      (\<forall>i' j'. (i', j') \<noteq> (i, j) \<longrightarrow>
         [[0, 1/2], [0, 0::real]] ! i' ! j' = [[0, 0], [0, 0::real]] ! i' ! j') \<and>
      map length [[0, 1/2], [0, 0::real]] = map length [[0, 0], [0, 0::real]]) \<and>
   map length (l_qtable ep_one_trained) = map length (l_qtable ep_one) \<and>
   l_qtable ep_bad = l_qtable ep_bad"
proof -
  have u: "q_update exact h_half [[0, 0], [0, 0]] 0 1 1 1 = Inr [[0, 1/2], [0, 0]]"
    by (simp add: model_defs)
  note f = update_frame [of exact h_half "[[0, 0], [0, 0]]" 0 1 1 1 "[[0, 1/2], [0, 0]]"
      "scripted 2 2" ep_one ep_one_trained ep_bad IndexError ep_bad]
  from f u ep_one_train_iter ep_bad_train_iter show ?thesis by blast
qed

end
